theory Spec2Isabelle
  imports Complex_Main
begin

section \<open>Time and durations\<close>

text \<open>
  Go's \<^verbatim>\<open>time.Duration\<close> is a signed 64-bit count of nanoseconds, and a
  \<^verbatim>\<open>time.Time\<close> is modelled as the number of nanoseconds since a fixed epoch.
  Both are \<^typ>\<open>int\<close>; the one library function whose result depends on the 64-bit
  range (\<^verbatim>\<open>Duration.Round\<close>) writes the wrap-around out.
\<close>

type_synonym Duration = int
type_synonym Time = int

definition Microsecond :: Duration where "Microsecond = 1000"
definition Millisecond :: Duration where "Millisecond = 1000000"
definition Second :: Duration where "Second = 1000000000"

definition minDuration :: Duration where "minDuration = - (2 ^ 63)"
definition maxDuration :: Duration where "maxDuration = 2 ^ 63 - 1"

definition wrap64 :: "int \<Rightarrow> int" where
  "wrap64 x = (x + 2 ^ 63) mod 2 ^ 64 - 2 ^ 63"

text \<open>Go's \<^verbatim>\<open>/\<close> and \<^verbatim>\<open>%\<close> on signed integers truncate towards zero.\<close>

definition go_quot :: "int \<Rightarrow> int \<Rightarrow> int" where
  "go_quot a b = sgn a * sgn b * (\<bar>a\<bar> div \<bar>b\<bar>)"

definition go_rem :: "int \<Rightarrow> int \<Rightarrow> int" where
  "go_rem a b = sgn a * (\<bar>a\<bar> mod \<bar>b\<bar>)"

text \<open>
  \<^verbatim>\<open>lessThanHalf(x, y)\<close> of package time: \<^verbatim>\<open>uint64(x)+uint64(x) < uint64(y)\<close>,
  for positive \<open>x\<close> and \<open>y\<close> (the unsigned sum of two values below \<open>2^63\<close> does not wrap).
\<close>

definition lessThanHalf :: "Duration \<Rightarrow> Duration \<Rightarrow> bool" where
  "lessThanHalf x y \<longleftrightarrow> (x + x) mod 2 ^ 64 < y mod 2 ^ 64"

text \<open>
  \<^verbatim>\<open>Duration.Round(m)\<close>: the multiple of \<open>m\<close> nearest to \<open>d\<close>, halfway values away
  from zero, and the extreme Duration where the result would leave the 64-bit range.
\<close>

definition Duration_Round :: "Duration \<Rightarrow> Duration \<Rightarrow> Duration" where
  "Duration_Round d m =
     (if m \<le> 0 then d
      else let r = go_rem d m in
        if d < 0 then
          (let r' = - r in
             if lessThanHalf r' m then d + r'
             else let d1 = wrap64 (d - m + r') in
               if d1 < d then d1 else minDuration)
        else if lessThanHalf r m then d - r
        else let d1 = wrap64 (d + m - r) in
          if d1 > d then d1 else maxDuration)"

text \<open>
  A float64 value is the rational it denotes, and \<open>float64\<close> is the rounding that every
  float64 operation ends with: to the nearest number with a significand of 53 bits,
  halfway cases to the even significand. \<open>ilog2\<close> is the binary exponent of a positive
  number and \<open>rne\<close> rounds to the nearest integer, halfway cases to the even one. The
  exponent range is not limited: the limiter's values have magnitudes between
  \<open>10^-9\<close> and \<open>2^34\<close>, far from overflow and from the subnormal numbers.
\<close>

definition rne :: "rat \<Rightarrow> int" where
  "rne q =
     (let f = \<lfloor>q\<rfloor>; r = q - of_int f
      in if r < 1 / 2 then f else if 1 / 2 < r then f + 1 else if even f then f else f + 1)"

function ilog2 :: "rat \<Rightarrow> int" where
  "ilog2 x =
     (if x \<le> 0 then 0
      else if x < 1 then ilog2 (2 * x) - 1
      else if 2 \<le> x then ilog2 (x / 2) + 1
      else 0)"
  by pat_completeness auto
termination
proof (relation "measure (\<lambda>x. if x < 1 then nat \<lceil>1 / x\<rceil> else nat \<lfloor>x\<rfloor>)")
  show "wf (measure (\<lambda>x::rat. if x < 1 then nat \<lceil>1 / x\<rceil> else nat \<lfloor>x\<rfloor>))" by simp
next
  fix x :: rat
  assume a: "\<not> x \<le> 0" "x < 1"
  then have x: "0 < x" by simp
  then have "1 < 1 / x" using a by simp
  then have c2: "2 \<le> \<lceil>1 / x\<rceil>" by linarith
  have "(if 2 * x < 1 then nat \<lceil>1 / (2 * x)\<rceil> else nat \<lfloor>2 * x\<rfloor>) < nat \<lceil>1 / x\<rceil>"
  proof (cases "2 * x < 1")
    case True
    then have "2 < 1 / x" using x by (simp add: field_simps)
    then have "1 / (2 * x) \<le> 1 / x - 1" by (simp add: field_simps)
    then have "\<lceil>1 / (2 * x)\<rceil> \<le> \<lceil>1 / x - 1\<rceil>" by (rule ceiling_mono)
    also have "\<dots> = \<lceil>1 / x\<rceil> - 1" by simp
    finally show ?thesis using True c2 x by simp
  next
    case False
    then have "\<lfloor>2 * x\<rfloor> = 1" using a by linarith
    with False c2 show ?thesis by simp
  qed
  with a show "(2 * x, x) \<in> measure (\<lambda>x. if x < 1 then nat \<lceil>1 / x\<rceil> else nat \<lfloor>x\<rfloor>)"
    by simp
next
  fix x :: rat
  assume a: "\<not> x \<le> 0" "\<not> x < 1" "2 \<le> x"
  have "x / 2 \<le> x - 1" using a by simp
  then have "\<lfloor>x / 2\<rfloor> \<le> \<lfloor>x - 1\<rfloor>" by (rule floor_mono)
  also have "\<dots> = \<lfloor>x\<rfloor> - 1" by simp
  finally have "\<lfloor>x / 2\<rfloor> < \<lfloor>x\<rfloor>" by simp
  moreover have "0 < \<lfloor>x\<rfloor>" using a by linarith
  ultimately have "nat \<lfloor>x / 2\<rfloor> < nat \<lfloor>x\<rfloor>" by simp
  with a show "(x / 2, x) \<in> measure (\<lambda>x. if x < 1 then nat \<lceil>1 / x\<rceil> else nat \<lfloor>x\<rfloor>)"
    by simp
qed

declare ilog2.simps [simp del]

definition float64 :: "rat \<Rightarrow> rat" where
  "float64 x =
     (if x = 0 then 0
      else let e = ilog2 \<bar>x\<bar>; ulp = 2 powi (e - 52)
        in of_int (rne (x / ulp)) * ulp)"

text \<open>
  \<^verbatim>\<open>Duration.Seconds()\<close> is \<^verbatim>\<open>float64(d/Second) + float64(d%Second)/1e9\<close>: the
  two conversions are exact (a count of seconds is below \<open>2^34\<close> and a count of
  nanoseconds below \<open>10^9\<close>, and \<^verbatim>\<open>1e9\<close> is a float64), and the division and the
  sum each round their result.
\<close>

definition Seconds :: "Duration \<Rightarrow> rat" where
  "Seconds d =
     (let sec = go_quot d Second; nsec = go_rem d Second
      in float64 (of_int sec + float64 (of_int nsec / 1000000000)))"

text \<open>
  \<^verbatim>\<open>math.Round\<close>: the nearest integer, halfway cases away from zero. Its float64
  result holds a whole number (exactly, below \<open>2^53\<close>), which is the \<^typ>\<open>int\<close>
  returned here.
\<close>

definition math_Round :: "rat \<Rightarrow> int" where
  "math_Round x = (if x < 0 then - \<lfloor>- x + 1 / 2\<rfloor> else \<lfloor>x + 1 / 2\<rfloor>)"

section \<open>Text formatting\<close>

definition digit_char :: "int \<Rightarrow> char" where
  "digit_char n = ''0123456789'' ! nat n"

text \<open>
  \<^verbatim>\<open>fmtInt\<close> and \<^verbatim>\<open>fmtFrac\<close> of package time write into a buffer from the right;
  here \<open>buf\<close> is the text already written and the digits are put in front of it.
  Their \<^verbatim>\<open>uint64\<close> argument is a non-negative \<^typ>\<open>int\<close>.
\<close>

function fmtInt_loop :: "string \<Rightarrow> int \<Rightarrow> string" where
  "fmtInt_loop buf v = (if v \<le> 0 then buf else fmtInt_loop (digit_char (v mod 10) # buf) (v div 10))"
  by pat_completeness auto
termination
  by (relation "measure (\<lambda>(buf, v). nat v)") auto

declare fmtInt_loop.simps [simp del]

definition fmtInt :: "string \<Rightarrow> int \<Rightarrow> string" where
  "fmtInt buf v = (if v = 0 then CHR ''0'' # buf else fmtInt_loop buf v)"

fun fmtFrac_loop :: "nat \<Rightarrow> string \<Rightarrow> int \<Rightarrow> bool \<Rightarrow> string \<times> int \<times> bool" where
  "fmtFrac_loop 0 buf v print = (buf, v, print)"
| "fmtFrac_loop (Suc i) buf v print =
     (let digit = v mod 10; print' = (print \<or> digit \<noteq> 0)
      in fmtFrac_loop i (if print' then digit_char digit # buf else buf) (v div 10) print')"

definition fmtFrac :: "string \<Rightarrow> int \<Rightarrow> nat \<Rightarrow> string \<times> int" where
  "fmtFrac buf v prec =
     (case fmtFrac_loop prec buf v False of
        (buf', v', print) \<Rightarrow> (if print then CHR ''.'' # buf' else buf', v'))"

text \<open>
  \<^verbatim>\<open>Duration.String()\<close>: \<^verbatim>\<open>72h3m0.5s\<close>, \<^verbatim>\<open>1m0s\<close>, \<^verbatim>\<open>42s\<close>, \<^verbatim>\<open>1.5ms\<close>, \<^verbatim>\<open>0s\<close>.
  The micro sign is the two bytes C2 B5.
\<close>

definition Duration_String :: "Duration \<Rightarrow> string" where
  "Duration_String d =
     (let u = \<bar>d\<bar>; neg = (d < 0) in
      if u < Second then
        (if u = 0 then ''0s''
         else
           (let (unit, prec) =
                  (if u < Microsecond then (''ns'', 0::nat)
                   else if u < Millisecond then ([CHR 0xC2, CHR 0xB5, CHR ''s''], 3)
                   else (''ms'', 6));
                (buf1, u1) = fmtFrac unit u prec;
                buf2 = fmtInt buf1 u1
            in if neg then CHR ''-'' # buf2 else buf2))
      else
        (let (buf1, u1) = fmtFrac ''s'' u 9;
             buf2 = fmtInt buf1 (u1 mod 60);
             u2 = u1 div 60;
             buf3 =
               (if u2 > 0 then
                  (let buf4 = fmtInt (CHR ''m'' # buf2) (u2 mod 60);
                       u3 = u2 div 60
                   in if u3 > 0 then fmtInt (CHR ''h'' # buf4) u3 else buf4)
                else buf2)
         in if neg then CHR ''-'' # buf3 else buf3))"

text \<open>
  \<^verbatim>\<open>strconv.FormatFloat(x, 'g', -1, 64)\<close>, which is what \<^verbatim>\<open>%v\<close> prints for a
  float64, on a float that holds the whole number \<open>n\<close>: the shortest digits that
  identify it are its decimal digits without trailing zeros; positional notation is
  used while the decimal exponent is below 6, and \<^verbatim>\<open>d.ddde+XX\<close> from there on.
\<close>

fun strip_zeros :: "string \<Rightarrow> string" where
  "strip_zeros ds = rev (dropWhile (\<lambda>c. c = CHR ''0'') (rev ds))"

definition fmt_exponent :: "int \<Rightarrow> string" where
  "fmt_exponent e = (if e < 10 then CHR ''0'' # fmtInt [] e else fmtInt [] e)"

definition FormatFloat_g :: "int \<Rightarrow> string" where
  "FormatFloat_g n =
     (let neg = (n < 0); all_digits = fmtInt [] \<bar>n\<bar>;
          digs = (if n = 0 then [] else strip_zeros all_digits);
          dp = (if n = 0 then 0 else int (length all_digits));
          exp = dp - 1;
          body =
            (if exp < - 4 \<or> exp \<ge> 6 then
               (hd digs # (if length digs > 1 then CHR ''.'' # tl digs else []))
                 @ ''e+'' @ fmt_exponent exp
             else all_digits)
      in if neg then CHR ''-'' # body else body)"

text \<open>
  \<^verbatim>\<open>fmt.Sprintf("... %s ...", arg)\<close> with the limiter's format string. A
  \<^verbatim>\<open>time.Duration\<close> is a Stringer, so \<^verbatim>\<open>%s\<close> prints its \<^verbatim>\<open>String()\<close>; a float64
  has no \<^verbatim>\<open>%s\<close> form, and fmt prints \<^verbatim>\<open>%!s(float64=\<close>, the value as \<^verbatim>\<open>%v\<close>
  prints it, and a closing parenthesis.
\<close>

datatype fmt_arg = ArgDuration Duration | ArgFloat64 int

fun fmt_s :: "fmt_arg \<Rightarrow> string" where
  "fmt_s (ArgDuration d) = Duration_String d"
| "fmt_s (ArgFloat64 n) = ''%!s(float64='' @ FormatFloat_g n @ '')''"

definition Sprintf_wait :: "fmt_arg \<Rightarrow> string" where
  "Sprintf_wait a =
     ''You have exceeded the rate limit. Please wait '' @ fmt_s a @ '' before you try again''"

section \<open>Strings, headers and network addresses\<close>

text \<open>
  \<^verbatim>\<open>strings.Split(s, sep)\<close> for a separator of one byte: the pieces of \<open>s\<close> between
  the separators, one more piece than there are separators.
\<close>

fun Split :: "string \<Rightarrow> char \<Rightarrow> string list" where
  "Split [] sep = [[]]"
| "Split (c # cs) sep =
     (if c = sep then [] # Split cs sep
      else (case Split cs sep of p # ps \<Rightarrow> (c # p) # ps | [] \<Rightarrow> [[c]]))"

text \<open>
  \<^verbatim>\<open>strings.TrimSpace\<close> removes every leading and trailing white-space rune
  (\<^verbatim>\<open>unicode.IsSpace\<close>). A Go string is a byte sequence, so the runes are listed by
  their UTF-8 encodings: tab, line feed, vertical tab, form feed, carriage return,
  space, U+0085, U+00A0, U+1680, U+2000 to U+200A, U+2028, U+2029, U+202F, U+205F
  and U+3000.
\<close>

definition space_encodings :: "string list" where
  "space_encodings =
     [[CHR 0x09], [CHR 0x0A], [CHR 0x0B], [CHR 0x0C], [CHR 0x0D], [CHR 0x20],
      [CHR 0xC2, CHR 0x85], [CHR 0xC2, CHR 0xA0], [CHR 0xE1, CHR 0x9A, CHR 0x80],
      [CHR 0xE2, CHR 0x80, CHR 0x80], [CHR 0xE2, CHR 0x80, CHR 0x81],
      [CHR 0xE2, CHR 0x80, CHR 0x82], [CHR 0xE2, CHR 0x80, CHR 0x83],
      [CHR 0xE2, CHR 0x80, CHR 0x84], [CHR 0xE2, CHR 0x80, CHR 0x85],
      [CHR 0xE2, CHR 0x80, CHR 0x86], [CHR 0xE2, CHR 0x80, CHR 0x87],
      [CHR 0xE2, CHR 0x80, CHR 0x88], [CHR 0xE2, CHR 0x80, CHR 0x89],
      [CHR 0xE2, CHR 0x80, CHR 0x8A], [CHR 0xE2, CHR 0x80, CHR 0xA8],
      [CHR 0xE2, CHR 0x80, CHR 0xA9], [CHR 0xE2, CHR 0x80, CHR 0xAF],
      [CHR 0xE2, CHR 0x81, CHR 0x9F], [CHR 0xE3, CHR 0x80, CHR 0x80]]"

definition rune_prefix :: "string list \<Rightarrow> string \<Rightarrow> nat" where
  "rune_prefix encs s =
     (case find (\<lambda>e. take (length e) s = e) encs of None \<Rightarrow> 0 | Some e \<Rightarrow> length e)"

function trim_runes :: "string list \<Rightarrow> string \<Rightarrow> string" where
  "trim_runes encs s =
     (let n = rune_prefix encs s in if n = 0 then s else trim_runes encs (drop n s))"
  by pat_completeness auto
termination
proof (relation "measure (\<lambda>(encs, s). length s)")
  show "wf (measure (\<lambda>(encs, s). length s))" by simp
next
  fix encs :: "string list" and s :: string and n :: nat
  assume n: "n = rune_prefix encs s" and nz: "n \<noteq> 0"
  then obtain e where "find (\<lambda>e. take (length e) s = e) encs = Some e" and "n = length e"
    by (auto simp: rune_prefix_def split: option.splits)
  then have "take n s = e" and "e \<noteq> []"
    using nz by (auto simp: find_Some_iff)
  then have "s \<noteq> []" by auto
  then show "((encs, drop n s), (encs, s)) \<in> measure (\<lambda>(encs, s). length s)"
    using nz by simp
qed

declare trim_runes.simps [simp del]

definition TrimSpace :: "string \<Rightarrow> string" where
  "TrimSpace s =
     rev (trim_runes (map rev space_encodings) (rev (trim_runes space_encodings s)))"

text \<open>\<^verbatim>\<open>strings.IndexByte\<close> and \<^verbatim>\<open>strings.LastIndexByte\<close>: \<open>-1\<close> when the byte is absent.\<close>

fun IndexByte :: "string \<Rightarrow> char \<Rightarrow> int" where
  "IndexByte [] c = - 1"
| "IndexByte (x # xs) c =
     (if x = c then 0 else (let i = IndexByte xs c in if i < 0 then - 1 else i + 1))"

definition LastIndexByte :: "string \<Rightarrow> char \<Rightarrow> int" where
  "LastIndexByte s c =
     (let i = IndexByte (rev s) c in if i < 0 then - 1 else int (length s) - 1 - i)"

text \<open>
  \<^verbatim>\<open>net.SplitHostPort\<close> splits \<^verbatim>\<open>host:port\<close>, \<^verbatim>\<open>[host]:port\<close> and
  \<^verbatim>\<open>[ipv6-host%zone]:port\<close> at the last colon, and fails with an address error
  on a missing port, a second colon outside brackets or a stray bracket.
\<close>

datatype AddrError =
  MissingPort | TooManyColons | MissingCloseBracket | UnexpectedOpenBracket
  | UnexpectedCloseBracket

definition SplitHostPort_rest ::
  "string \<Rightarrow> string \<Rightarrow> nat \<Rightarrow> nat \<Rightarrow> nat \<Rightarrow> AddrError + string \<times> string" where
  "SplitHostPort_rest hostport host j k i =
     (if IndexByte (drop j hostport) CHR ''['' \<ge> 0 then Inl UnexpectedOpenBracket
      else if IndexByte (drop k hostport) CHR '']'' \<ge> 0 then Inl UnexpectedCloseBracket
      else Inr (host, drop (i + 1) hostport))"

definition SplitHostPort :: "string \<Rightarrow> AddrError + string \<times> string" where
  "SplitHostPort hostport =
     (let i = LastIndexByte hostport CHR '':'' in
      if i < 0 then Inl MissingPort
      else if hd hostport = CHR ''['' then
        (let e = IndexByte hostport CHR '']'' in
         if e < 0 then Inl MissingCloseBracket
         else if e + 1 = int (length hostport) then Inl MissingPort
         else if e + 1 = i then
           SplitHostPort_rest hostport (take (nat e - 1) (drop 1 hostport)) 1 (nat e + 1) (nat i)
         else if hostport ! nat (e + 1) = CHR '':'' then Inl TooManyColons
         else Inl MissingPort)
      else
        (let host = take (nat i) hostport in
         if IndexByte host CHR '':'' \<ge> 0 then Inl TooManyColons
         else SplitHostPort_rest hostport host 0 0 (nat i)))"

text \<open>
  The parts of \<^verbatim>\<open>http.Request\<close> the middleware reads. \<^verbatim>\<open>Header.Get\<close> returns the
  first value stored under the key, or the empty string.
\<close>

record Request =
  Header :: "string \<rightharpoonup> string list"
  RemoteAddr :: string
  Body :: string

definition Header_Get :: "(string \<rightharpoonup> string list) \<Rightarrow> string \<Rightarrow> string" where
  "Header_Get h key = (case h key of None \<Rightarrow> [] | Some [] \<Rightarrow> [] | Some (v # vs) \<Rightarrow> v)"

subsection \<open>getClientIPFromRequest\<close>

definition remoteIP :: "Request \<Rightarrow> string" where
  "remoteIP r =
     (case SplitHostPort (RemoteAddr r) of
        Inl err \<Rightarrow> RemoteAddr r
      | Inr (host, port) \<Rightarrow> host)"

definition getClientIPFromRequest :: "int \<Rightarrow> Request \<Rightarrow> string" where
  "getClientIPFromRequest proxyCount r =
     (if proxyCount > 0 then
        (let xForwardedFor = Header_Get (Header r) ''X-Forwarded-For'' in
         if xForwardedFor \<noteq> [] then
           (let xForwardedForParts = Split xForwardedFor CHR '','';
                partIndex = int (length xForwardedForParts) - proxyCount;
                partIndex = (if partIndex < 0 then 0 else partIndex)
            in TrimSpace (xForwardedForParts ! nat partIndex))
         else remoteIP r)
      else remoteIP r)"

section \<open>The expiring key store\<close>

text \<open>
  Modelled from the spec: the store behind \<^verbatim>\<open>l.cache\<close> is the ttlcache package, an
  external library whose code is not part of the repository. Section 4.3 of the
  specification gives its contract: \<^verbatim>\<open>set(key, ttl)\<close> records an entry whose expiry
  is the insertion time plus the TTL, \<^verbatim>\<open>get(key)\<close> reports presence and the remaining
  TTL, an expired key behaves as absent, and \<^verbatim>\<open>remove(key)\<close> deletes the entry.
  The store's switch \<^verbatim>\<open>SkipTTLExtensionOnHit\<close>, which \<^verbatim>\<open>NewLimiter\<close> turns on, is
  kept: while it is off a hit restarts the entry's window and reports the full TTL.
\<close>

record item =
  item_data :: bool
  item_ttl :: Duration
  item_expireAt :: Time

record Cache =
  items :: "string \<rightharpoonup> item"
  skipTTLExtension :: bool

definition NewCache :: Cache where
  "NewCache = \<lparr>items = Map.empty, skipTTLExtension = False\<rparr>"

definition SkipTTLExtensionOnHit :: "Cache \<Rightarrow> bool \<Rightarrow> Cache" where
  "SkipTTLExtensionOnHit c v = c\<lparr>skipTTLExtension := v\<rparr>"

definition SetWithTTL :: "Cache \<Rightarrow> Time \<Rightarrow> string \<Rightarrow> bool \<Rightarrow> Duration \<Rightarrow> Cache" where
  "SetWithTTL c now key v d =
     c\<lparr>items := (items c)(key \<mapsto> \<lparr>item_data = v, item_ttl = d, item_expireAt = now + d\<rparr>)\<rparr>"

text \<open>\<open>None\<close> is the store's not-found error.\<close>

definition GetWithTTL :: "Cache \<Rightarrow> Time \<Rightarrow> string \<Rightarrow> (bool \<times> Duration) option \<times> Cache" where
  "GetWithTTL c now key =
     (case items c key of
        None \<Rightarrow> (None, c)
      | Some it \<Rightarrow>
          if item_expireAt it \<le> now then (None, c)
          else if skipTTLExtension c then (Some (item_data it, item_expireAt it - now), c)
          else (Some (item_data it, item_ttl it),
                c\<lparr>items := (items c)(key \<mapsto> it\<lparr>item_expireAt := now + item_ttl it\<rparr>)\<rparr>))"

definition Remove :: "Cache \<Rightarrow> string \<Rightarrow> Cache" where
  "Remove c key = c\<lparr>items := (items c)(key := None)\<rparr>"

text \<open>A key has a live entry at an instant when an entry is stored and has not expired.\<close>

definition live :: "Cache \<Rightarrow> Time \<Rightarrow> string \<Rightarrow> bool" where
  "live c now key = (case items c key of None \<Rightarrow> False | Some it \<Rightarrow> now < item_expireAt it)"

definition remaining :: "Cache \<Rightarrow> Time \<Rightarrow> string \<Rightarrow> Duration" where
  "remaining c now key = (case items c key of None \<Rightarrow> 0 | Some it \<Rightarrow> item_expireAt it - now)"

text \<open>A run of lookups, each at its own instant, threading the store through.\<close>

fun lookups :: "Cache \<Rightarrow> (Time \<times> string) list \<Rightarrow> Cache" where
  "lookups c [] = c"
| "lookups c ((t, key) # rest) = lookups (snd (GetWithTTL c t key)) rest"

section \<open>The limiter\<close>

text \<open>
  \<^verbatim>\<open>readAddress\<close>, \<^verbatim>\<open>renderJSON\<close>, \<^verbatim>\<open>claimResponse\<close> and \<^verbatim>\<open>malformedRequest\<close> live
  in another file of the package. What the middleware uses of them: \<^verbatim>\<open>readAddress\<close>
  returns the claimed address or an error and is a parameter below; a
  \<^verbatim>\<open>malformedRequest\<close> carries a status and a message; \<^verbatim>\<open>renderJSON\<close> writes a
  \<^verbatim>\<open>claimResponse\<close> message with a status code. \<^verbatim>\<open>errors.As\<close> follows the chain of
  wrapped errors to the first \<^verbatim>\<open>malformedRequest\<close>.
\<close>

datatype error =
  malformedRequest int string
  | wrappedError string error
  | otherError string

fun errors_As :: "error \<Rightarrow> (int \<times> string) option" where
  "errors_As (malformedRequest st msg) = Some (st, msg)"
| "errors_As (wrappedError ctx err) = errors_As err"
| "errors_As (otherError msg) = None"

record response =
  Message :: string
  status :: int

definition renderJSON :: "string \<Rightarrow> int \<Rightarrow> response" where
  "renderJSON msg code = \<lparr>Message = msg, status = code\<rparr>"

definition StatusOK :: int where "StatusOK = 200"
definition StatusTooManyRequests :: int where "StatusTooManyRequests = 429"
definition StatusInternalServerError :: int where "StatusInternalServerError = 500"

text \<open>\<^verbatim>\<open>http.StatusText\<close>, on the codes named above (the empty string on an unknown code).\<close>

definition StatusText :: "int \<Rightarrow> string" where
  "StatusText code =
     (if code = 200 then ''OK''
      else if code = 429 then ''Too Many Requests''
      else if code = 500 then ''Internal Server Error''
      else [])"

text \<open>The struct without its mutex: requests are taken one at a time.\<close>

record Limiter =
  cache :: Cache
  proxyCount :: int
  ttl :: Duration

definition NewLimiter :: "int \<Rightarrow> Duration \<Rightarrow> Limiter" where
  "NewLimiter pc d =
     (let c = NewCache; c = SkipTTLExtensionOnHit c True
      in \<lparr>cache = c, proxyCount = pc, ttl = d\<rparr>)"

definition checklimitByKey :: "Limiter \<Rightarrow> Time \<Rightarrow> string \<Rightarrow> Duration \<times> Limiter" where
  "checklimitByKey l now key =
     (case GetWithTTL (cache l) now key of
        (Some (v, d), c) \<Rightarrow> (d, l\<lparr>cache := c\<rparr>)
      | (None, c) \<Rightarrow> (0, l\<lparr>cache := c\<rparr>))"

text \<open>\<open>Some\<close> response is the source's \<^verbatim>\<open>true\<close>: the rejection has been rendered.\<close>

definition limitByKey :: "Limiter \<Rightarrow> Time \<Rightarrow> string \<Rightarrow> response option \<times> Limiter" where
  "limitByKey l now key =
     (case GetWithTTL (cache l) now key of
        (Some (v, d), c) \<Rightarrow>
          (Some (renderJSON (Sprintf_wait (ArgDuration (Duration_Round d Second)))
                   StatusTooManyRequests),
           l\<lparr>cache := c\<rparr>)
      | (None, c) \<Rightarrow> (None, l\<lparr>cache := c\<rparr>))"

subsection \<open>ServeHTTP\<close>

text \<open>
  The method is taken in the order of its text. The part under the mutex (lines 54
  to 91) runs at one instant \<open>now\<close>. Its blocks are named: \<open>checkIP\<close> is the check of
  the client identifier and its four slots (lines 61 to 76), \<open>setKey\<close> is a call
  \<^verbatim>\<open>l.cache.SetWithTTL(key, true, l.ttl)\<close>, \<open>recordEntries\<close> is the recording of the
  entries (lines 78 to 89), and \<open>rollback\<close> is the removal after the downstream handler
  has run (lines 95 and 96). The downstream handler is the function \<open>next\<close>, whose
  value is the status the response writer reports afterwards. The outcome names the
  return statement taken.
\<close>

datatype outcome =
  Malformed response
  | LimitedByAddress response
  | LimitedByIP response
  | Forwarded int

definition checkIP :: "Limiter \<Rightarrow> Time \<Rightarrow> string \<Rightarrow> response option \<times> Limiter" where
  "checkIP l now clintIP =
     (let (d, l1) = checklimitByKey l now clintIP in
      if Seconds d > 0 then
        (let (d0, l2) = checklimitByKey l1 now (clintIP @ ''-0'');
             (d1, l3) = checklimitByKey l2 now (clintIP @ ''-1'');
             (d2, l4) = checklimitByKey l3 now (clintIP @ ''-2'');
             (d3, l5) = checklimitByKey l4 now (clintIP @ ''-3'');
             ttl' = min (min (min (Seconds d0) (Seconds d1)) (Seconds d2)) (Seconds d3)
         in if ttl' > 0 then
              (Some (renderJSON (Sprintf_wait (ArgFloat64 (math_Round ttl')))
                       StatusTooManyRequests), l5)
            else (None, l5))
      else (None, l1))"

definition setKey :: "Limiter \<Rightarrow> Time \<Rightarrow> string \<Rightarrow> Limiter" where
  "setKey l now key = l\<lparr>cache := SetWithTTL (cache l) now key True (ttl l)\<rparr>"

definition recordEntries :: "Limiter \<Rightarrow> Time \<Rightarrow> string \<Rightarrow> string \<Rightarrow> Limiter" where
  "recordEntries l now address clintIP =
     (let l1 = setKey l now address;
          l2 = setKey l1 now clintIP;
          (d0, l3) = checklimitByKey l2 now (clintIP @ ''-0'')
      in if Seconds d0 \<le> 0 then setKey l3 now (clintIP @ ''-0'')
         else let (d1, l4) = checklimitByKey l3 now (clintIP @ ''-1'')
           in if Seconds d1 \<le> 0 then setKey l4 now (clintIP @ ''-1'')
              else let (d2, l5) = checklimitByKey l4 now (clintIP @ ''-2'')
                in if Seconds d2 \<le> 0 then setKey l5 now (clintIP @ ''-2'')
                   else let (d3, l6) = checklimitByKey l5 now (clintIP @ ''-3'')
                     in if Seconds d3 \<le> 0 then setKey l6 now (clintIP @ ''-3'')
                        else l6)"

definition rollback :: "Limiter \<Rightarrow> string \<Rightarrow> string \<Rightarrow> Limiter" where
  "rollback l address clintIP =
     (let l1 = l\<lparr>cache := Remove (cache l) address\<rparr>
      in l1\<lparr>cache := Remove (cache l1) clintIP\<rparr>)"

definition ServeHTTP ::
  "(Request \<Rightarrow> error + string) \<Rightarrow> Limiter \<Rightarrow> Time \<Rightarrow> Request \<Rightarrow> (Request \<Rightarrow> int)
     \<Rightarrow> outcome \<times> Limiter" where
  "ServeHTTP readAddress l now r next =
     (case readAddress r of
        Inl err \<Rightarrow>
          (case errors_As err of
             Some (st, msg) \<Rightarrow> (Malformed (renderJSON msg st), l)
           | None \<Rightarrow>
               (Malformed (renderJSON (StatusText StatusInternalServerError)
                             StatusInternalServerError), l))
      | Inr address \<Rightarrow>
          if ttl l \<le> 0 then (Forwarded (next r), l)
          else
            (let clintIP = getClientIPFromRequest (proxyCount l) r in
             case limitByKey l now address of
               (Some resp, l1) \<Rightarrow> (LimitedByAddress resp, l1)
             | (None, l1) \<Rightarrow>
                 (case checkIP l1 now clintIP of
                    (Some resp, l2) \<Rightarrow> (LimitedByIP resp, l2)
                  | (None, l2) \<Rightarrow>
                      (let l3 = recordEntries l2 now address clintIP;
                           st = next r
                       in if st \<noteq> StatusOK then (Forwarded st, rollback l3 address clintIP)
                          else (Forwarded st, l3)))))"

section \<open>Notions used in the statements\<close>

fun isLimitedByAddress :: "outcome \<Rightarrow> bool" where
  "isLimitedByAddress (LimitedByAddress resp) = True"
| "isLimitedByAddress out = False"

fun isLimitedByIP :: "outcome \<Rightarrow> bool" where
  "isLimitedByIP (LimitedByIP resp) = True"
| "isLimitedByIP out = False"

fun isForwarded :: "outcome \<Rightarrow> bool" where
  "isForwarded (Forwarded st) = True"
| "isForwarded out = False"

text \<open>The four slot keys of a client identifier, in the order the limiter tries them.\<close>

definition slotKeys :: "string \<Rightarrow> string list" where
  "slotKeys clintIP = [clintIP @ ''-0'', clintIP @ ''-1'', clintIP @ ''-2'', clintIP @ ''-3'']"

text \<open>The remaining TTL that a lookup reports for a key: zero without a live entry.\<close>

definition ttlOf :: "Cache \<Rightarrow> Time \<Rightarrow> string \<Rightarrow> Duration" where
  "ttlOf c now key = (if live c now key then remaining c now key else 0)"

definition minSlotTTL :: "Cache \<Rightarrow> Time \<Rightarrow> string \<Rightarrow> Duration" where
  "minSlotTTL c now clintIP =
     min (min (min (ttlOf c now (clintIP @ ''-0'')) (ttlOf c now (clintIP @ ''-1'')))
            (ttlOf c now (clintIP @ ''-2''))) (ttlOf c now (clintIP @ ''-3''))"

text \<open>The first slot key without a live entry, as the specification words the choice.\<close>

definition firstFreeSlot :: "Cache \<Rightarrow> Time \<Rightarrow> string \<Rightarrow> string option" where
  "firstFreeSlot c now clintIP = find (\<lambda>key. \<not> live c now key) (slotKeys clintIP)"

section \<open>Sample inputs\<close>

text \<open>
  A stand-in for \<^verbatim>\<open>readAddress\<close> (the request body is the claimed address, and the
  body \<^verbatim>\<open>bad\<close> is a malformed request), a request from \<^verbatim>\<open>1.2.3.4\<close>, and the limiter
  of the specification's scenario: a TTL of 60 seconds and the entries that four
  successful claims of distinct addresses, one second apart, have recorded.
\<close>

definition sample_readAddress :: "Request \<Rightarrow> error + string" where
  "sample_readAddress r =
     (if Body r = ''bad'' then Inl (malformedRequest 400 ''invalid address'') else Inr (Body r))"

definition sample_request :: "string \<Rightarrow> Request" where
  "sample_request a = \<lparr>Header = Map.empty, RemoteAddr = ''1.2.3.4:5555'', Body = a\<rparr>"

definition four_claims :: Limiter where
  "four_claims =
     foldl (\<lambda>l (now, key). setKey l now key) (NewLimiter 0 (60 * Second))
       [(0, ''0xA''), (0, ''1.2.3.4''), (0, ''1.2.3.4-0''),
        (Second, ''0xB''), (Second, ''1.2.3.4''), (Second, ''1.2.3.4-1''),
        (2 * Second, ''0xC''), (2 * Second, ''1.2.3.4''), (2 * Second, ''1.2.3.4-2''),
        (3 * Second, ''0xD''), (3 * Second, ''1.2.3.4''), (3 * Second, ''1.2.3.4-3'')]"

section \<open>Auxiliary facts\<close>

lemma ilog2_bounds:
  "0 < x \<Longrightarrow> 2 powi (ilog2 x) \<le> x \<and> x < 2 powi (ilog2 x + 1)"
proof (induction x rule: ilog2.induct)
  case (1 x)
  show ?case
  proof (cases "x < 1")
    case True
    with 1 have ih: "2 powi (ilog2 (2 * x)) \<le> 2 * x \<and> 2 * x < 2 powi (ilog2 (2 * x) + 1)"
      by simp
    have e: "ilog2 x = ilog2 (2 * x) - 1"
      using 1(3) True by (subst ilog2.simps) simp
    have "(2::rat) powi (ilog2 (2 * x)) = 2 * 2 powi (ilog2 (2 * x) - 1)"
      by (simp add: power_int_diff)
    moreover have "(2::rat) powi (ilog2 (2 * x) + 1) = 2 * 2 powi (ilog2 (2 * x))"
      by (simp add: power_int_add)
    ultimately show ?thesis using ih unfolding e by simp
  next
    case False
    show ?thesis
    proof (cases "2 \<le> x")
      case True
      with 1 False have ih: "2 powi (ilog2 (x / 2)) \<le> x / 2 \<and> x / 2 < 2 powi (ilog2 (x / 2) + 1)"
        by simp
      have e: "ilog2 x = ilog2 (x / 2) + 1"
        using 1(3) True False by (subst ilog2.simps) simp
      have "(2::rat) powi (ilog2 (x / 2) + 1) = 2 * 2 powi (ilog2 (x / 2))"
        by (simp add: power_int_add)
      moreover have "(2::rat) powi (ilog2 (x / 2) + 1 + 1) = 2 * 2 powi (ilog2 (x / 2) + 1)"
        by (simp add: power_int_add)
      ultimately show ?thesis using ih unfolding e by simp
    next
      case F2: False
      have e: "ilog2 x = 0"
        using 1(3) False F2 by (subst ilog2.simps) simp
      show ?thesis using False F2 unfolding e by simp
    qed
  qed
qed

lemma rne_of_int: "rne (of_int n) = n"
  by (simp add: rne_def)

lemma rne_mono: "q \<le> q' \<Longrightarrow> rne q \<le> rne q'"
proof -
  assume le: "q \<le> q'"
  have fl: "\<lfloor>q\<rfloor> \<le> \<lfloor>q'\<rfloor>" using le by (rule floor_mono)
  have lo: "\<lfloor>q'\<rfloor> \<le> rne q'" by (simp add: rne_def Let_def)
  have hi: "rne q \<le> \<lfloor>q\<rfloor> + 1" by (simp add: rne_def Let_def)
  show ?thesis
  proof (cases "\<lfloor>q\<rfloor> = \<lfloor>q'\<rfloor>")
    case True
    then have "q - of_int \<lfloor>q\<rfloor> \<le> q' - of_int \<lfloor>q'\<rfloor>" using le by simp
    then show ?thesis using True by (auto simp: rne_def Let_def)
  next
    case False
    with fl have "\<lfloor>q\<rfloor> + 1 \<le> \<lfloor>q'\<rfloor>" by simp
    with lo hi show ?thesis by linarith
  qed
qed

lemma rne_minus: "rne (- q) = - rne q"
proof (cases "q = of_int \<lfloor>q\<rfloor>")
  case True
  then obtain n where "q = of_int n" ..
  then show ?thesis by (simp add: rne_of_int flip: of_int_minus)
next
  case False
  then have fl: "\<lfloor>- q\<rfloor> = - \<lfloor>q\<rfloor> - 1"
    by (simp add: floor_minus ceiling_altdef)
  have r: "- q - of_int (- \<lfloor>q\<rfloor> - 1) = 1 - (q - of_int \<lfloor>q\<rfloor>)" by simp
  show ?thesis
    unfolding rne_def Let_def fl r by (auto simp: algebra_simps)
qed

lemma pow2_less_iff: "(2::rat) powi a < 2 powi b \<longleftrightarrow> a < b"
proof
  assume l: "(2::rat) powi a < 2 powi b"
  show "a < b"
  proof (rule ccontr)
    assume "\<not> a < b"
    then have "b \<le> a" by simp
    then have "(2::rat) powi b \<le> 2 powi a" by (rule power_int_increasing) simp
    with l show False by simp
  qed
next
  assume "a < b"
  then show "(2::rat) powi a < 2 powi b" by (rule power_int_strict_increasing) simp
qed

lemma ilog2_unique:
  assumes "2 powi e \<le> x" and "x < 2 powi (e + 1)"
  shows "ilog2 x = e"
proof -
  have pos: "0 < x" using assms(1) by (rule less_le_trans [rotated]) simp
  note b = ilog2_bounds [OF pos]
  have "(2::rat) powi e < 2 powi (ilog2 x + 1)" using assms(1) b by linarith
  then have 1: "e < ilog2 x + 1" by (simp add: pow2_less_iff)
  have "(2::rat) powi (ilog2 x) < 2 powi (e + 1)" using assms(2) b by linarith
  then have 2: "ilog2 x < e + 1" by (simp add: pow2_less_iff)
  from 1 2 show ?thesis by simp
qed

lemma ilog2_mono:
  assumes "0 < x" and "x \<le> y"
  shows "ilog2 x \<le> ilog2 y"
proof -
  have "(2::rat) powi (ilog2 x) < 2 powi (ilog2 y + 1)"
    using ilog2_bounds [OF assms(1)] ilog2_bounds [of y] assms by linarith
  then have "ilog2 x < ilog2 y + 1" by (simp add: pow2_less_iff)
  then show ?thesis by simp
qed

lemma float64_minus: "float64 (- x) = - float64 x"
  by (simp add: float64_def Let_def rne_minus)

lemma ulp_scale: "(2::rat) powi (e - 52) * 2 ^ 52 = 2 powi e"
proof -
  have "(2::rat) powi (e - 52) * 2 powi 52 = 2 powi (e - 52 + 52)"
    by (subst power_int_add) simp_all
  then show ?thesis by simp
qed

lemma float64_range:
  assumes "0 < x"
  shows "2 powi (ilog2 x) \<le> float64 x" and "float64 x \<le> 2 powi (ilog2 x + 1)"
proof -
  define e where "e = ilog2 x"
  define u :: rat where "u = 2 powi (e - 52)"
  have u: "0 < u" by (simp add: u_def)
  have us: "u * 2 ^ 52 = 2 powi e" unfolding u_def by (rule ulp_scale)
  have us1: "u * 2 ^ 53 = 2 powi (e + 1)"
    using us by (simp add: power_int_add)
  have b: "2 powi e \<le> x" "x < 2 powi (e + 1)"
    using ilog2_bounds [OF assms] by (simp_all add: e_def)
  have "of_int (2 ^ 52) \<le> x / u" using b(1) us u by (simp add: field_simps)
  then have "rne (of_int (2 ^ 52)) \<le> rne (x / u)" by (rule rne_mono)
  then have lo: "2 ^ 52 \<le> rne (x / u)" by (simp only: rne_of_int)
  have "x / u \<le> of_int (2 ^ 53)" using b(2) us1 u by (simp add: field_simps)
  then have "rne (x / u) \<le> rne (of_int (2 ^ 53))" by (rule rne_mono)
  then have hi: "rne (x / u) \<le> 2 ^ 53" by (simp only: rne_of_int)
  have f: "float64 x = of_int (rne (x / u)) * u"
    using assms by (simp add: float64_def Let_def e_def u_def)
  have "2 powi e = of_int (2 ^ 52) * u" using us by (simp add: mult.commute)
  also have "\<dots> \<le> of_int (rne (x / u)) * u"
    using lo u by (intro mult_right_mono) simp_all
  finally show "2 powi (ilog2 x) \<le> float64 x" by (simp add: f e_def)
  have "of_int (rne (x / u)) * u \<le> of_int (2 ^ 53) * u"
    using hi u by (intro mult_right_mono) simp_all
  also have "\<dots> = 2 powi (e + 1)" using us1 by (simp add: mult.commute)
  finally show "float64 x \<le> 2 powi (ilog2 x + 1)" by (simp add: f e_def)
qed

lemma float64_pos: "0 < x \<Longrightarrow> 0 < float64 x"
proof -
  assume "0 < x"
  then have "2 powi (ilog2 x) \<le> float64 x" by (rule float64_range(1))
  moreover have "(0::rat) < 2 powi (ilog2 x)" by simp
  ultimately show ?thesis by linarith
qed

lemma float64_neg: "x < 0 \<Longrightarrow> float64 x < 0"
  using float64_pos [of "- x"] by (simp add: float64_minus)

lemma float64_0: "float64 0 = 0"
  by (simp add: float64_def)

lemma float64_mono_pos:
  assumes "0 < x" and "x \<le> y"
  shows "float64 x \<le> float64 y"
proof (cases "ilog2 x = ilog2 y")
  case True
  define u :: rat where "u = 2 powi (ilog2 x - 52)"
  have u: "0 < u" by (simp add: u_def)
  have "x / u \<le> y / u" using assms(2) u by (simp add: divide_right_mono)
  then have "rne (x / u) \<le> rne (y / u)" by (rule rne_mono)
  then have "of_int (rne (x / u)) * u \<le> of_int (rne (y / u)) * u"
    using u by (intro mult_right_mono) simp_all
  then show ?thesis
    using assms True by (simp add: float64_def Let_def u_def)
next
  case False
  with ilog2_mono [OF assms] have "ilog2 x + 1 \<le> ilog2 y" by simp
  then have "(2::rat) powi (ilog2 x + 1) \<le> 2 powi (ilog2 y)"
    by (simp add: power_int_increasing)
  moreover have "0 < y" using assms by simp
  ultimately show ?thesis
    using float64_range(2) [OF assms(1)] float64_range(1) [of y] by linarith
qed

lemma float64_mono:
  assumes "x \<le> y"
  shows "float64 x \<le> float64 y"
proof -
  consider "0 < x" | "x \<le> 0" "0 \<le> y" | "y < 0" by linarith
  then show ?thesis
  proof cases
    case 1
    then show ?thesis using assms by (rule float64_mono_pos)
  next
    case 2
    have "float64 x \<le> 0"
      using 2(1) float64_neg [of x] float64_0 by (cases "x = 0") auto
    moreover have "0 \<le> float64 y"
      using 2(2) float64_pos [of y] float64_0 by (cases "y = 0") auto
    ultimately show ?thesis by simp
  next
    case 3
    then have "0 < - y" "- y \<le> - x" using assms by simp_all
    then have "float64 (- y) \<le> float64 (- x)" by (rule float64_mono_pos)
    then show ?thesis by (simp add: float64_minus)
  qed
qed

lemma float64_exact_pos:
  assumes "0 < n" and "n < 2 ^ 53"
  shows "float64 (of_int n * 2 powi j) = of_int n * 2 powi j"
proof -
  define x :: rat where "x = of_int n * 2 powi j"
  define e where "e = ilog2 x"
  have pos: "0 < x" using assms(1) by (simp add: x_def)
  have "x < of_int (2 ^ 53) * 2 powi j"
    unfolding x_def using assms(2) by (intro mult_strict_right_mono) simp_all
  also have "\<dots> = 2 powi (j + 53)" by (simp add: power_int_add)
  finally have "(2::rat) powi e < 2 powi (j + 53)"
    using ilog2_bounds [OF pos] by (simp add: e_def)
  then have "e < j + 53" by (simp add: pow2_less_iff)
  then have "0 \<le> j - (e - 52)" by simp
  then obtain k :: nat where k: "j - (e - 52) = int k"
    by (rule nonneg_int_cases)
  have "x / 2 powi (e - 52) = of_int n * 2 powi (j - (e - 52))"
    by (simp add: x_def power_int_diff)
  also have "\<dots> = of_int (n * 2 ^ k)" unfolding k by simp
  finally have "rne (x / 2 powi (e - 52)) = n * 2 ^ k" by (simp only: rne_of_int)
  then have "float64 x = of_int (n * 2 ^ k) * 2 powi (e - 52)"
    using pos by (simp add: float64_def Let_def e_def)
  also have "\<dots> = of_int n * (2 powi (int k) * 2 powi (e - 52))" by simp
  also have "2 powi (int k) * 2 powi (e - 52) = (2::rat) powi (int k + (e - 52))"
    by (subst power_int_add) simp_all
  also have "int k + (e - 52) = j" using k by simp
  finally show ?thesis by (simp add: x_def)
qed

lemma float64_exact:
  assumes "\<bar>n\<bar> < 2 ^ 53"
  shows "float64 (of_int n * 2 powi j) = of_int n * 2 powi j"
proof -
  consider "0 < n" | "n = 0" | "n < 0" by linarith
  then show ?thesis
  proof cases
    case 1
    then show ?thesis using assms by (intro float64_exact_pos) simp_all
  next
    case 2
    then show ?thesis by (simp add: float64_0)
  next
    case 3
    then have "float64 (of_int (- n) * 2 powi j) = of_int (- n) * 2 powi j"
      using assms by (intro float64_exact_pos) simp_all
    then show ?thesis using float64_minus [of "of_int n * 2 powi j"] by simp
  qed
qed

lemma float64_1: "float64 1 = 1"
  using float64_exact [of 1 0] by simp

lemma float64_of_int: "\<bar>n\<bar> < 2 ^ 53 \<Longrightarrow> float64 (of_int n) = of_int n"
  using float64_exact [of n 0] by simp

lemma float64_unit:
  assumes "0 \<le> x" and "x \<le> 1"
  shows "0 \<le> float64 x" and "float64 x \<le> 1"
  using float64_mono [OF assms(1)] float64_mono [OF assms(2)]
  by (simp_all add: float64_0 float64_1)

lemma Seconds_minus: "Seconds (- d) = - Seconds d"
proof -
  have "go_quot (- d) Second = - go_quot d Second" "go_rem (- d) Second = - go_rem d Second"
    by (simp_all add: go_quot_def go_rem_def)
  then have "Seconds (- d) =
      float64 (- (of_int (go_quot d Second) + float64 (of_int (go_rem d Second) / 1000000000)))"
    by (simp add: Seconds_def Let_def float64_minus)
  also have "\<dots> = - Seconds d"
    unfolding float64_minus by (simp add: Seconds_def Let_def)
  finally show ?thesis .
qed

lemma Seconds_nonneg_eq:
  assumes "0 \<le> d"
  shows "Seconds d = float64 (of_int (d div 1000000000) + float64 (of_int (d mod 1000000000) / 1000000000))"
proof (cases "d = 0")
  case True
  then show ?thesis by (simp add: Seconds_def go_quot_def go_rem_def)
next
  case False
  with assms have "sgn d = 1" by simp
  with assms show ?thesis
    by (simp add: Seconds_def go_quot_def go_rem_def Second_def Let_def)
qed

lemma frac_unit:
  fixes d :: int
  shows "0 \<le> float64 (of_int (d mod 1000000000) / 1000000000)"
    and "float64 (of_int (d mod 1000000000) / 1000000000) \<le> 1"
proof -
  have "0 \<le> d mod 1000000000" "d mod 1000000000 < 1000000000" by simp_all
  then have "(0::rat) \<le> of_int (d mod 1000000000) / 1000000000"
    and "(of_int (d mod 1000000000) :: rat) / 1000000000 \<le> 1"
    by simp_all
  then show "0 \<le> float64 (of_int (d mod 1000000000) / 1000000000)"
    and "float64 (of_int (d mod 1000000000) / 1000000000) \<le> 1"
    by (rule float64_unit)+
qed

lemma Seconds_pos_if:
  assumes "0 < d"
  shows "0 < Seconds d"
proof -
  have d: "d = 1000000000 * (d div 1000000000) + d mod 1000000000" by simp
  have q: "0 \<le> d div 1000000000" using assms by (simp add: pos_imp_zdiv_nonneg_iff)
  have "0 < of_int (d div 1000000000) + float64 (of_int (d mod 1000000000) / 1000000000)"
  proof (cases "d div 1000000000 = 0")
    case True
    with d have "d mod 1000000000 = d" by simp
    with assms have "(0::rat) < of_int (d mod 1000000000) / 1000000000" by simp
    then have "0 < float64 (of_int (d mod 1000000000) / 1000000000)" by (rule float64_pos)
    with True show ?thesis by simp
  next
    case False
    with q have "(0::rat) < of_int (d div 1000000000)" by simp
    with frac_unit(1) [of d] show ?thesis by linarith
  qed
  then have "0 < float64 (of_int (d div 1000000000) + float64 (of_int (d mod 1000000000) / 1000000000))"
    by (rule float64_pos)
  then show ?thesis using assms by (simp add: Seconds_nonneg_eq)
qed

lemma Seconds_0: "Seconds 0 = 0"
  by (simp add: Seconds_def go_quot_def go_rem_def float64_0)

lemma Seconds_pos: "0 < Seconds d \<longleftrightarrow> 0 < d"
proof -
  consider "0 < d" | "d = 0" | "d < 0" by linarith
  then show ?thesis
  proof cases
    case 1
    then show ?thesis by (simp add: Seconds_pos_if)
  next
    case 2
    then show ?thesis by (simp add: Seconds_0)
  next
    case 3
    then have "0 < Seconds (- d)" by (intro Seconds_pos_if) simp
    with 3 show ?thesis by (simp add: Seconds_minus)
  qed
qed

lemma Seconds_nonpos: "Seconds d \<le> 0 \<longleftrightarrow> d \<le> 0"
  using Seconds_pos [of d] by linarith

lemma Seconds_mono_nonneg:
  assumes "0 \<le> a" and "a \<le> b"
  shows "Seconds a \<le> Seconds b"
proof -
  let ?q = "\<lambda>d::int. d div 1000000000" and ?r = "\<lambda>d::int. d mod 1000000000"
  let ?f = "\<lambda>d::int. float64 (of_int (d mod 1000000000) / 1000000000)"
  have b: "0 \<le> b" using assms by simp
  have qle: "?q a \<le> ?q b" using assms(2) by (simp add: zdiv_mono1)
  have "of_int (?q a) + ?f a \<le> of_int (?q b) + ?f b"
  proof (cases "?q a = ?q b")
    case True
    have "a = 1000000000 * ?q a + ?r a" "b = 1000000000 * ?q b + ?r b" by simp_all
    with True assms(2) have "?r a \<le> ?r b" by linarith
    then have "(of_int (?r a) :: rat) / 1000000000 \<le> of_int (?r b) / 1000000000" by simp
    then have "?f a \<le> ?f b" by (rule float64_mono)
    with True show ?thesis by simp
  next
    case False
    with qle have "?q a + 1 \<le> ?q b" by simp
    then have "(of_int (?q a) :: rat) + 1 \<le> of_int (?q b)" by linarith
    with frac_unit(2) [of a] frac_unit(1) [of b] show ?thesis by linarith
  qed
  then have "float64 (of_int (?q a) + ?f a) \<le> float64 (of_int (?q b) + ?f b)"
    by (rule float64_mono)
  then show ?thesis using assms(1) b by (simp add: Seconds_nonneg_eq)
qed

lemma Seconds_mono:
  assumes "a \<le> b"
  shows "Seconds a \<le> Seconds b"
proof -
  consider "0 \<le> a" | "a < 0" "0 \<le> b" | "b < 0" by linarith
  then show ?thesis
  proof cases
    case 1
    then show ?thesis using assms by (rule Seconds_mono_nonneg)
  next
    case 2
    then have "Seconds a \<le> 0" "\<not> Seconds b < 0"
      using Seconds_nonpos [of a] Seconds_pos [of "- b"] by (simp_all add: Seconds_minus)
    then show ?thesis by simp
  next
    case 3
    then have "Seconds (- b) \<le> Seconds (- a)" using assms by (intro Seconds_mono_nonneg) simp_all
    then show ?thesis by (simp add: Seconds_minus)
  qed
qed

lemma Seconds_min: "min (Seconds a) (Seconds b) = Seconds (min a b)"
  using Seconds_mono [of a b] Seconds_mono [of b a] by (auto simp: min_def)

lemma GetWithTTL_skip:
  "skipTTLExtension c \<Longrightarrow>
   GetWithTTL c now key =
     (case items c key of None \<Rightarrow> None
      | Some it \<Rightarrow> if now < item_expireAt it then Some (item_data it, item_expireAt it - now) else None, c)"
  by (auto simp: GetWithTTL_def split: option.splits)

lemma checklimitByKey_skip:
  "skipTTLExtension (cache l) \<Longrightarrow> checklimitByKey l now key = (ttlOf (cache l) now key, l)"
  by (auto simp: checklimitByKey_def GetWithTTL_skip live_def remaining_def ttlOf_def split: option.splits)

lemma limitByKey_skip:
  "skipTTLExtension (cache l) \<Longrightarrow>
   limitByKey l now key =
     (if live (cache l) now key
      then Some (renderJSON (Sprintf_wait (ArgDuration (Duration_Round (remaining (cache l) now key) Second)))
                   StatusTooManyRequests)
      else None, l)"
  by (auto simp: limitByKey_def GetWithTTL_skip live_def remaining_def split: option.splits)

lemma ttlOf_pos: "0 < ttlOf c now key \<longleftrightarrow> live c now key"
  by (auto simp: ttlOf_def live_def remaining_def split: option.splits)

lemma minSlotTTL_pos:
  "0 < minSlotTTL c now ip \<longleftrightarrow> (\<forall>key \<in> set (slotKeys ip). live c now key)"
  by (simp add: minSlotTTL_def slotKeys_def ttlOf_pos)

lemma checkIP_skip:
  assumes "skipTTLExtension (cache l)"
  shows "checkIP l now ip =
     (if live (cache l) now ip \<and> 0 < minSlotTTL (cache l) now ip
      then Some (renderJSON (Sprintf_wait (ArgFloat64 (math_Round (Seconds (minSlotTTL (cache l) now ip)))))
                   StatusTooManyRequests)
      else None, l)"
  using assms
  by (simp add: checkIP_def checklimitByKey_skip Seconds_pos Seconds_min minSlotTTL_def ttlOf_pos)

lemma ServeHTTP_skip:
  assumes "skipTTLExtension (cache l)" and "readAddress r = Inr address" and "0 < ttl l"
  shows "ServeHTTP readAddress l now r next =
     (let ip = getClientIPFromRequest (proxyCount l) r in
      if live (cache l) now address then
        (LimitedByAddress (renderJSON (Sprintf_wait (ArgDuration
            (Duration_Round (remaining (cache l) now address) Second))) StatusTooManyRequests), l)
      else if live (cache l) now ip \<and> 0 < minSlotTTL (cache l) now ip then
        (LimitedByIP (renderJSON (Sprintf_wait (ArgFloat64
            (math_Round (Seconds (minSlotTTL (cache l) now ip))))) StatusTooManyRequests), l)
      else if next r \<noteq> StatusOK then
        (Forwarded (next r), rollback (recordEntries l now address ip) address ip)
      else (Forwarded (next r), recordEntries l now address ip))"
  using assms
  by (simp add: ServeHTTP_def limitByKey_skip checkIP_skip Let_def)

lemma setKey_simps [simp]:
  "cache (setKey l now key) = SetWithTTL (cache l) now key True (ttl l)"
  "ttl (setKey l now key) = ttl l"
  "proxyCount (setKey l now key) = proxyCount l"
  by (simp_all add: setKey_def)

lemma SetWithTTL_simps [simp]:
  "skipTTLExtension (SetWithTTL c now key v d) = skipTTLExtension c"
  "items (SetWithTTL c now key v d) =
     (items c)(key \<mapsto> \<lparr>item_data = v, item_ttl = d, item_expireAt = now + d\<rparr>)"
  by (simp_all add: SetWithTTL_def)

lemma Remove_simps [simp]:
  "skipTTLExtension (Remove c key) = skipTTLExtension c"
  "items (Remove c key) = (items c)(key := None)"
  by (simp_all add: Remove_def)

lemma live_SetWithTTL:
  "0 < d \<Longrightarrow> live (SetWithTTL c now key v d) now key' \<longleftrightarrow> key' = key \<or> live c now key'"
  by (simp add: live_def)

lemma ttlOf_nonpos: "ttlOf c now key \<le> 0 \<longleftrightarrow> \<not> live c now key"
  using ttlOf_pos [of c now key] by auto

lemma recordEntries_skip:
  assumes "skipTTLExtension (cache l)"
  shows "recordEntries l now address ip =
     (let l2 = setKey (setKey l now address) now ip in
      case firstFreeSlot (cache l2) now ip of None \<Rightarrow> l2 | Some key \<Rightarrow> setKey l2 now key)"
  using assms
  by (simp add: recordEntries_def checklimitByKey_skip Seconds_nonpos ttlOf_nonpos
      firstFreeSlot_def slotKeys_def Let_def)

lemma recordEntries_fields:
  assumes "skipTTLExtension (cache l)"
  shows "skipTTLExtension (cache (recordEntries l now address ip))"
    and "ttl (recordEntries l now address ip) = ttl l"
    and "proxyCount (recordEntries l now address ip) = proxyCount l"
  using assms by (simp_all add: recordEntries_skip Let_def split: option.splits)

lemma rollback_simps [simp]:
  "skipTTLExtension (cache (rollback l address ip)) = skipTTLExtension (cache l)"
  "ttl (rollback l address ip) = ttl l"
  "proxyCount (rollback l address ip) = proxyCount l"
  "items (cache (rollback l address ip)) = (items (cache l))(address := None, ip := None)"
  by (simp_all add: rollback_def Let_def)

lemma firstFreeSlot_None:
  "firstFreeSlot c now ip = None \<longleftrightarrow> (\<forall>key \<in> set (slotKeys ip). live c now key)"
  by (auto simp: firstFreeSlot_def find_None_iff)

lemma firstFreeSlot_Some:
  "firstFreeSlot c now ip = Some key \<Longrightarrow> key \<in> set (slotKeys ip) \<and> \<not> live c now key"
  by (auto simp: firstFreeSlot_def find_Some_iff)

lemma ip_not_slot: "ip \<notin> set (slotKeys ip)"
  by (simp add: slotKeys_def)

lemma firstFreeSlot_after_set:
  assumes "0 < ttl l" and "address \<notin> set (slotKeys ip)"
  shows "firstFreeSlot (cache (setKey (setKey l now address) now ip)) now ip
           = firstFreeSlot (cache l) now ip"
proof -
  have "\<And>key. key \<in> set (slotKeys ip) \<Longrightarrow>
          live (cache (setKey (setKey l now address) now ip)) now key = live (cache l) now key"
    using assms ip_not_slot [of ip] by (auto simp: live_SetWithTTL)
  then show ?thesis
    unfolding firstFreeSlot_def by (intro find_cong) auto
qed

lemma ServeHTTP_forwarded:
  assumes "skipTTLExtension (cache l)" and "readAddress r = Inr address" and "0 < ttl l"
    and "isForwarded (fst (ServeHTTP readAddress l now r next))"
    and "ip = getClientIPFromRequest (proxyCount l) r"
  shows "\<not> live (cache l) now address"
    and "\<not> (live (cache l) now ip \<and> 0 < minSlotTTL (cache l) now ip)"
    and "ServeHTTP readAddress l now r next =
       (Forwarded (next r),
        if next r \<noteq> StatusOK then rollback (recordEntries l now address ip) address ip
        else recordEntries l now address ip)"
proof -
  note eq = ServeHTTP_skip [of l readAddress r address now "next", OF assms(1-3)]
  show a: "\<not> live (cache l) now address"
    using assms(4) unfolding eq by (auto simp: Let_def)
  show b: "\<not> (live (cache l) now ip \<and> 0 < minSlotTTL (cache l) now ip)"
    using assms(4,5) a unfolding eq by (auto simp: Let_def)
  show "ServeHTTP readAddress l now r next =
       (Forwarded (next r),
        if next r \<noteq> StatusOK then rollback (recordEntries l now address ip) address ip
        else recordEntries l now address ip)"
    using a b assms(5) unfolding eq by (auto simp: Let_def)
qed

lemma half_up_div:
  fixes d :: int
  assumes "0 \<le> d"
  shows "(2 * d + 1000000000) div 2000000000 =
     (if 2 * (d mod 1000000000) < 1000000000 then d div 1000000000 else d div 1000000000 + 1)"
proof -
  define q where "q = d div 1000000000"
  define r where "r = d mod 1000000000"
  have d: "d = 1000000000 * q + r" and r: "0 \<le> r" "r < 1000000000"
    by (simp_all add: q_def r_def)
  show ?thesis
  proof (cases "2 * r < 1000000000")
    case True
    have "2 * d + 1000000000 = 2000000000 * q + (2 * r + 1000000000)" using d by simp
    moreover have "0 \<le> 2 * r + 1000000000" "2 * r + 1000000000 < 2000000000" using r True by simp_all
    ultimately have "(2 * d + 1000000000) div 2000000000 = q"
      by (rule int_div_pos_eq)
    with True show ?thesis by (simp add: q_def r_def)
  next
    case False
    have "2 * d + 1000000000 = 2000000000 * (q + 1) + (2 * r - 1000000000)" using d by simp
    moreover have "0 \<le> 2 * r - 1000000000" "2 * r - 1000000000 < 2000000000" using r False by simp_all
    ultimately have "(2 * d + 1000000000) div 2000000000 = q + 1"
      by (rule int_div_pos_eq)
    with False show ?thesis by (simp add: q_def r_def)
  qed
qed

lemma Duration_Round_Second:
  assumes "0 \<le> d" and "d \<le> maxDuration - Second"
  shows "Duration_Round d Second = ((2 * d + Second) div (2 * Second)) * Second"
proof -
  define r where "r = d mod 1000000000"
  have r: "0 \<le> r" "r < 1000000000" by (simp_all add: r_def)
  have rem: "go_rem d Second = r"
    using assms(1) by (cases "d = 0") (simp_all add: go_rem_def Second_def r_def)
  have lth: "lessThanHalf r Second \<longleftrightarrow> 2 * r < 1000000000"
    using r by (simp add: lessThanHalf_def Second_def)
  have d: "d = 1000000000 * (d div 1000000000) + r" by (simp add: r_def)
  have "0 \<le> d + 1000000000 - r" "d + 1000000000 - r < 2 ^ 63"
    using assms r by (simp_all add: maxDuration_def Second_def)
  then have wrap: "wrap64 (d + Second - r) = d + 1000000000 - r"
    by (simp add: wrap64_def Second_def)
  show ?thesis
  proof (cases "2 * r < 1000000000")
    case True
    then have "Duration_Round d Second = d - r"
      using assms(1) by (simp add: Duration_Round_def rem lth Let_def) (simp add: Second_def)
    also have "\<dots> = (d div 1000000000) * 1000000000" using d by simp
    finally show ?thesis
      using True half_up_div [OF assms(1)] by (simp add: Second_def r_def)
  next
    case False
    then have "Duration_Round d Second = d + 1000000000 - r"
      using assms(1) r by (simp add: Duration_Round_def rem lth wrap Let_def) (simp add: Second_def)
    also have "\<dots> = (d div 1000000000 + 1) * 1000000000" using d by simp
    finally show ?thesis
      using False half_up_div [OF assms(1)] by (simp add: Second_def r_def)
  qed
qed

lemma float64_exact_div:
  assumes "\<bar>n\<bar> < 2 ^ 53"
  shows "float64 (of_int n / 2 ^ k) = of_int n / 2 ^ k"
  using float64_exact [OF assms, of "- int k"] by (simp add: power_int_minus divide_inverse)

lemma math_Round_Seconds:
  assumes "0 \<le> d" and "d < 8388608 * Second"
  shows "math_Round (Seconds d) = (2 * d + Second) div (2 * Second)"
proof -
  define k where "k = d div 1000000000"
  define r where "r = d mod 1000000000"
  define f where "f = float64 (of_int r / 1000000000)"
  define s where "s = float64 (of_int k + f)"
  have r: "0 \<le> r" "r < 1000000000" by (simp_all add: r_def)
  have dk: "d = 1000000000 * k + r" by (simp add: k_def r_def)
  have k: "0 \<le> k" "k < 8388608"
    using assms r dk by (simp_all add: Second_def)
  have f01: "0 \<le> f" "f \<le> 1"
    unfolding f_def r_def by (rule frac_unit)+
  have sec: "Seconds d = s"
    using assms(1) by (simp add: Seconds_nonneg_eq s_def f_def k_def r_def)
  have kx: "float64 (of_int k) = of_int k"
    using k by (intro float64_of_int) simp
  have s0: "of_int k \<le> s"
  proof -
    have "float64 (of_int k) \<le> float64 (of_int k + f)"
      using f01(1) by (intro float64_mono) simp
    then show ?thesis by (simp add: kx s_def)
  qed
  then have nonneg: "\<not> s < 0" using k(1) by (simp add: order.trans [of 0 "of_int k" s] not_less)
  show ?thesis
  proof (cases "2 * r < 1000000000")
    case True
    then have "r \<le> 499999999" by simp
    then have "(of_int r :: rat) \<le> 499999999" by linarith
    then have "(of_int r :: rat) / 1000000000 \<le> of_int 536870911 / 2 ^ 30" by simp
    then have "f \<le> float64 (of_int 536870911 / 2 ^ 30)"
      unfolding f_def by (rule float64_mono)
    also have "\<dots> = of_int 536870911 / 2 ^ 30" by (rule float64_exact_div) simp
    finally have fle: "f \<le> 536870911 / 1073741824" by simp
    have n: "\<bar>k * 1073741824 + 536870911\<bar> < 2 ^ 53" using k by simp
    have "of_int k + f \<le> of_int (k * 1073741824 + 536870911) / 2 ^ 30"
      using fle by (simp add: field_simps)
    then have "s \<le> float64 (of_int (k * 1073741824 + 536870911) / 2 ^ 30)"
      unfolding s_def by (rule float64_mono)
    also have "\<dots> = of_int (k * 1073741824 + 536870911) / 2 ^ 30"
      using n by (rule float64_exact_div)
    finally have "s < of_int k + 1 / 2" by (simp add: field_simps)
    with s0 have "\<lfloor>s + 1 / 2\<rfloor> = k" by linarith
    with nonneg True show ?thesis
      using half_up_div [OF assms(1)] by (simp add: math_Round_def sec Second_def k_def r_def)
  next
    case False
    then have "500000000 \<le> r" by simp
    then have "(500000000 :: rat) \<le> of_int r" by linarith
    then have "(of_int 1 :: rat) / 2 ^ 1 \<le> of_int r / 1000000000" by simp
    then have "float64 (of_int 1 / 2 ^ 1) \<le> f"
      unfolding f_def by (rule float64_mono)
    moreover have "float64 (of_int 1 / 2 ^ 1) = of_int 1 / 2 ^ 1" by (rule float64_exact_div) simp
    ultimately have fge: "1 / 2 \<le> f" by simp
    have n: "\<bar>2 * k + 1\<bar> < 2 ^ 53" using k by simp
    have "of_int (2 * k + 1) / 2 ^ 1 \<le> of_int k + f"
      using fge by (simp add: field_simps)
    then have "float64 (of_int (2 * k + 1) / 2 ^ 1) \<le> s"
      unfolding s_def by (rule float64_mono)
    moreover have "float64 (of_int (2 * k + 1) / 2 ^ 1) = of_int (2 * k + 1) / 2 ^ 1"
      using n by (rule float64_exact_div)
    ultimately have lo: "of_int k + 1 / 2 \<le> s" by (simp add: field_simps)
    have "of_int k + f \<le> of_int (k + 1)" using f01(2) by simp
    then have "s \<le> float64 (of_int (k + 1))"
      unfolding s_def by (rule float64_mono)
    also have "\<dots> = of_int (k + 1)" using k by (intro float64_of_int) simp
    finally have hi: "s \<le> of_int k + 1" by simp
    from lo hi have "\<lfloor>s + 1 / 2\<rfloor> = k + 1" by linarith
    with nonneg False show ?thesis
      using half_up_div [OF assms(1)] by (simp add: math_Round_def sec Second_def k_def r_def)
  qed
qed

text \<open>
  From \<open>2^24\<close> seconds on the float64 no longer tells a value just below a half from
  the half itself, and the rounded number of seconds can be one too high.
\<close>

lemma math_Round_Seconds_late: "math_Round (Seconds 16777216499999999) = 16777217"
  by code_simp

lemma nearest_second:
  assumes "0 \<le> d" and "R = ((2 * d + Second) div (2 * Second)) * Second"
  shows "Second dvd R" and "2 * \<bar>R - d\<bar> \<le> Second"
proof -
  show "Second dvd R" using assms(2) by simp
  define q where "q = d div 1000000000"
  define r where "r = d mod 1000000000"
  have d: "d = 1000000000 * q + r" and r: "0 \<le> r" "r < 1000000000"
    by (simp_all add: q_def r_def)
  have "R = (if 2 * r < 1000000000 then q else q + 1) * 1000000000"
    using assms(2) half_up_div [OF assms(1)] by (simp add: Second_def q_def r_def)
  then show "2 * \<bar>R - d\<bar> \<le> Second"
    using d r by (auto simp: Second_def split: if_splits)
qed

lemma Sprintf_wait_text:
  "Sprintf_wait a = ''You have exceeded the rate limit. Please wait '' @ fmt_s a @ '' before you try again''"
  by (simp add: Sprintf_wait_def)

lemma Sprintf_wait_Duration:
  "''You have exceeded the rate limit. Please wait '' @ Duration_String d @ '' before you try again''
     = Sprintf_wait (ArgDuration d)"
  by (simp only: Sprintf_wait_def fmt_s.simps)

lemma live_remaining_pos: "live c now key \<Longrightarrow> 0 < remaining c now key"
  by (auto simp: live_def remaining_def split: option.splits)

lemma live_cong_item: "items c' key = items c key \<Longrightarrow> live c' now key = live c now key"
  by (simp add: live_def)

lemma remaining_cong_item: "items c' key = items c key \<Longrightarrow> remaining c' now key = remaining c now key"
  by (simp add: remaining_def)

lemma address_denied_eq:
  assumes "skipTTLExtension (cache l)" and "readAddress r = Inr address" and "0 < ttl l"
    and "live (cache l) now address"
  shows "ServeHTTP readAddress l now r next =
           (LimitedByAddress
              (renderJSON (Sprintf_wait (ArgDuration (Duration_Round (remaining (cache l) now address) Second)))
                 StatusTooManyRequests), l)"
  using assms by (simp add: ServeHTTP_skip Let_def)

lemma Duration_Round_nearest:
  assumes "0 < d" "d \<le> maxDuration - Second"
  shows "Second dvd Duration_Round d Second \<and> 2 * \<bar>Duration_Round d Second - d\<bar> \<le> Second"
proof -
  have d0: "0 \<le> d" using assms(1) by simp
  have R: "Duration_Round d Second = ((2 * d + Second) div (2 * Second)) * Second"
    using d0 assms(2) by (rule Duration_Round_Second)
  from nearest_second [OF d0 R] show ?thesis by simp
qed

lemma address_denied_independent:
  assumes "skipTTLExtension (cache l)" and "readAddress r = Inr address" and "0 < ttl l"
    and "live (cache l) now address"
   and h: "skipTTLExtension (cache l') \<and> 0 < ttl l' \<and> readAddress r' = Inr address
             \<and> items (cache l') address = items (cache l) address"
 shows  "fst (ServeHTTP readAddress l' now r' next') = fst (ServeHTTP readAddress l now r next)"
proof -
  from h have same: "items (cache l') address = items (cache l) address" by blast
  have lv: "live (cache l') now address"
    using live_cong_item [OF same, of now] assms(4) by blast
  have rem: "remaining (cache l') now address = remaining (cache l) now address"
    using same by (rule remaining_cong_item)
  from h have h1: "skipTTLExtension (cache l')" and h2: "readAddress r' = Inr address" and h3: "0 < ttl l'"
    by blast+
  have e1: "fst (ServeHTTP readAddress l' now r' next') = LimitedByAddress
              (renderJSON (Sprintf_wait (ArgDuration (Duration_Round (remaining (cache l') now address) Second)))
                 StatusTooManyRequests)"
    using address_denied_eq [of l' readAddress r' address now next', OF h1 h2 h3 lv] by simp
  have e2: "fst (ServeHTTP readAddress l now r next) = LimitedByAddress
              (renderJSON (Sprintf_wait (ArgDuration (Duration_Round (remaining (cache l) now address) Second)))
                 StatusTooManyRequests)"
    using address_denied_eq [of l readAddress r address now "next", OF assms(1-4)] by simp
  show ?thesis unfolding e1 e2 rem ..
qed

lemma not_live_absent: "items c key = None \<Longrightarrow> \<not> live c now key"
  by (simp add: live_def)

lemma not_limited_by_address:
  assumes "skipTTLExtension (cache l)" and "readAddress r = Inr address"
    and "\<not> live (cache l) now address"
  shows "\<not> isLimitedByAddress (fst (ServeHTTP readAddress l now r next))"
proof (cases "0 < ttl l")
  case True
  show ?thesis
    unfolding ServeHTTP_skip [of l readAddress r address now "next", OF assms(1,2) True]
    using assms(3) by (simp add: Let_def)
next
  case False
  with assms(2) show ?thesis by (simp add: ServeHTTP_def)
qed

lemma lookups_skip: "skipTTLExtension c \<Longrightarrow> lookups c reads = c"
  by (induction reads arbitrary: c) (auto simp: GetWithTTL_skip)

lemma Split_nonempty: "Split s c \<noteq> []"
  by (induction s) (auto split: list.splits)

lemma length_Split: "length (Split s c) = Suc (count_list s c)"
  by (induction s) (auto split: list.splits simp: Split_nonempty)

lemma Split_no_sep: "p \<in> set (Split s c) \<Longrightarrow> c \<notin> set p"
  by (induction s arbitrary: p) (auto split: list.splits if_splits)

lemma Split_join: "concat (map (\<lambda>p. p @ [c]) (butlast (Split s c))) @ last (Split s c) = s"
proof (induction s)
  case Nil
  show ?case by simp
next
  case (Cons x xs)
  obtain p ps where sp: "Split xs c = p # ps"
    using Split_nonempty [of xs c] by (cases "Split xs c") auto
  show ?case
  proof (cases "x = c")
    case True
    with Cons show ?thesis by (simp add: Split_nonempty)
  next
    case False
    with Cons sp show ?thesis by (cases ps) auto
  qed
qed

lemma trim_runes_suffix: "\<exists>pre. s = pre @ trim_runes encs s"
proof (induction encs s rule: trim_runes.induct)
  case (1 encs s)
  show ?case
  proof (cases "rune_prefix encs s = 0")
    case True
    then show ?thesis by (subst trim_runes.simps) (simp add: Let_def)
  next
    case False
    with 1 obtain pre where "drop (rune_prefix encs s) s = pre @ trim_runes encs (drop (rune_prefix encs s) s)"
      by blast
    then have "s = (take (rune_prefix encs s) s @ pre) @ trim_runes encs (drop (rune_prefix encs s) s)"
      by (metis append_assoc append_take_drop_id)
    moreover have "trim_runes encs s = trim_runes encs (drop (rune_prefix encs s) s)"
      using False by (subst trim_runes.simps) (simp add: Let_def)
    ultimately show ?thesis by metis
  qed
qed

lemma TrimSpace_substring: "\<exists>pre suf. s = pre @ TrimSpace s @ suf"
proof -
  obtain pre where a: "s = pre @ trim_runes space_encodings s"
    using trim_runes_suffix by blast
  obtain q where b: "rev (trim_runes space_encodings s)
      = q @ trim_runes (map rev space_encodings) (rev (trim_runes space_encodings s))"
    using trim_runes_suffix by blast
  from b have "trim_runes space_encodings s = TrimSpace s @ rev q"
    unfolding TrimSpace_def by (metis rev_append rev_rev_ident)
  with a have "s = pre @ TrimSpace s @ rev q" by simp
  then show ?thesis by blast
qed

lemma NewLimiter_fields:
  "skipTTLExtension (cache (NewLimiter pc d))" "ttl (NewLimiter pc d) = d"
  "proxyCount (NewLimiter pc d) = pc" "items (cache (NewLimiter pc d)) = Map.empty"
  by (simp_all add: NewLimiter_def NewCache_def SkipTTLExtensionOnHit_def)

lemma ServeHTTP_keeps_configuration:
  assumes "skipTTLExtension (cache l)"
  shows "skipTTLExtension (cache (snd (ServeHTTP readAddress l now r next)))"
    and "ttl (snd (ServeHTTP readAddress l now r next)) = ttl l"
    and "proxyCount (snd (ServeHTTP readAddress l now r next)) = proxyCount l"
proof -
  have "skipTTLExtension (cache (snd (ServeHTTP readAddress l now r next)))
      \<and> ttl (snd (ServeHTTP readAddress l now r next)) = ttl l
      \<and> proxyCount (snd (ServeHTTP readAddress l now r next)) = proxyCount l"
  proof (cases "readAddress r")
    case (Inl err)
    with assms show ?thesis by (simp add: ServeHTTP_def split: option.splits)
  next
    case (Inr address)
    show ?thesis
    proof (cases "0 < ttl l")
      case True
      show ?thesis
        unfolding ServeHTTP_skip [of l readAddress r address now "next", OF assms Inr True]
        using assms by (simp add: Let_def recordEntries_fields)
    next
      case False
      with assms Inr show ?thesis by (simp add: ServeHTTP_def)
    qed
  qed
  then show "skipTTLExtension (cache (snd (ServeHTTP readAddress l now r next)))"
    and "ttl (snd (ServeHTTP readAddress l now r next)) = ttl l"
    and "proxyCount (snd (ServeHTTP readAddress l now r next)) = proxyCount l"
    by blast+
qed

lemma admitted_step:
  assumes "skipTTLExtension (cache l)" and "readAddress r = Inr address" and "0 < ttl l"
    and "isForwarded (fst (ServeHTTP readAddress l now r next))"
    and "ip = getClientIPFromRequest (proxyCount l) r"
    and "next r = StatusOK"
    and "firstFreeSlot (cache (setKey (setKey l now address) now ip)) now ip = Some key"
  shows "snd (ServeHTTP readAddress l now r next)
           = setKey (setKey (setKey l now address) now ip) now key"
  using ServeHTTP_forwarded(3) [OF assms(1-5)] assms(6,7)
  by (simp add: recordEntries_skip [OF assms(1)] Let_def)

text \<open>
  The sample limiter is the state after four successful claims from \<^verbatim>\<open>1.2.3.4\<close> for
  distinct addresses, one second apart, on a new limiter with a TTL of 60 seconds.
\<close>

lemma four_claims_reached:
  "snd (ServeHTTP sample_readAddress
     (snd (ServeHTTP sample_readAddress
        (snd (ServeHTTP sample_readAddress
           (snd (ServeHTTP sample_readAddress (NewLimiter 0 (60 * Second))
                   0 (sample_request ''0xA'') (\<lambda>r. 200)))
           Second (sample_request ''0xB'') (\<lambda>r. 200)))
        (2 * Second) (sample_request ''0xC'') (\<lambda>r. 200)))
     (3 * Second) (sample_request ''0xD'') (\<lambda>r. 200))
   = four_claims"
proof -
  let ?s0 = "NewLimiter 0 (60 * Second)"
  let ?s1 = "setKey (setKey (setKey ?s0 0 ''0xA'') 0 ''1.2.3.4'') 0 ''1.2.3.4-0''"
  let ?s2 = "setKey (setKey (setKey ?s1 Second ''0xB'') Second ''1.2.3.4'') Second ''1.2.3.4-1''"
  let ?s3 = "setKey (setKey (setKey ?s2 (2 * Second) ''0xC'') (2 * Second) ''1.2.3.4'') (2 * Second) ''1.2.3.4-2''"
  let ?s4 = "setKey (setKey (setKey ?s3 (3 * Second) ''0xD'') (3 * Second) ''1.2.3.4'') (3 * Second) ''1.2.3.4-3''"
  have ok: "200 = StatusOK" by (simp add: StatusOK_def)
  have 1: "snd (ServeHTTP sample_readAddress ?s0 0 (sample_request ''0xA'') (\<lambda>r. 200)) = ?s1"
    by (rule admitted_step [where address = "''0xA''" and ip = "''1.2.3.4''"]; (rule ok | code_simp))
  have 2: "snd (ServeHTTP sample_readAddress ?s1 Second (sample_request ''0xB'') (\<lambda>r. 200)) = ?s2"
    by (rule admitted_step [where address = "''0xB''" and ip = "''1.2.3.4''"]; (rule ok | code_simp))
  have 3: "snd (ServeHTTP sample_readAddress ?s2 (2 * Second) (sample_request ''0xC'') (\<lambda>r. 200)) = ?s3"
    by (rule admitted_step [where address = "''0xC''" and ip = "''1.2.3.4''"]; (rule ok | code_simp))
  have 4: "snd (ServeHTTP sample_readAddress ?s3 (3 * Second) (sample_request ''0xD'') (\<lambda>r. 200)) = ?s4"
    by (rule admitted_step [where address = "''0xD''" and ip = "''1.2.3.4''"]; (rule ok | code_simp))
  have "four_claims = ?s4" by (simp add: four_claims_def)
  then show ?thesis unfolding 1 2 3 4 by simp
qed

section \<open>The claims\<close>

text \<open>
  Claim C1. A request that reaches the check of the client identifier (its address
  parsed, limiting enabled, no live entry under the address key) is denied on IP
  grounds if and only if the plain client-identifier key has a live entry and all four
  slot keys have live entries; whenever the plain key or one of the slot keys has no
  live entry, no request is denied on IP grounds; and all four slots are live exactly
  when the minimum remaining TTL across them is positive.
\<close>

theorem ip_denial_iff:
  assumes "skipTTLExtension (cache l)"
    and "ip = getClientIPFromRequest (proxyCount l) r"
  shows "(readAddress r = Inr address \<and> 0 < ttl l \<and> \<not> live (cache l) now address \<longrightarrow>
            (isLimitedByIP (fst (ServeHTTP readAddress l now r next)) \<longleftrightarrow>
               live (cache l) now ip \<and> (\<forall>key \<in> set (slotKeys ip). live (cache l) now key)))
       \<and> (\<not> (live (cache l) now ip \<and> (\<forall>key \<in> set (slotKeys ip). live (cache l) now key)) \<longrightarrow>
            \<not> isLimitedByIP (fst (ServeHTTP readAddress l now r next)))
       \<and> ((\<forall>key \<in> set (slotKeys ip). live (cache l) now key) \<longleftrightarrow> 0 < minSlotTTL (cache l) now ip)"
proof (intro conjI impI)
  assume "readAddress r = Inr address \<and> 0 < ttl l \<and> \<not> live (cache l) now address"
  then show "isLimitedByIP (fst (ServeHTTP readAddress l now r next)) \<longleftrightarrow>
               live (cache l) now ip \<and> (\<forall>key \<in> set (slotKeys ip). live (cache l) now key)"
    using assms by (simp add: ServeHTTP_skip Let_def minSlotTTL_pos)
next
  assume no: "\<not> (live (cache l) now ip \<and> (\<forall>key \<in> set (slotKeys ip). live (cache l) now key))"
  show "\<not> isLimitedByIP (fst (ServeHTTP readAddress l now r next))"
  proof (cases "readAddress r")
    case (Inl err)
    then show ?thesis by (auto simp: ServeHTTP_def split: option.splits)
  next
    case (Inr a)
    show ?thesis
    proof (cases "0 < ttl l")
      case True
      with no Inr assms show ?thesis
        by (auto simp: ServeHTTP_skip Let_def minSlotTTL_pos)
    next
      case False
      with Inr show ?thesis by (simp add: ServeHTTP_def)
    qed
  qed
next
  show "(\<forall>key \<in> set (slotKeys ip). live (cache l) now key) \<longleftrightarrow> 0 < minSlotTTL (cache l) now ip"
    by (simp add: minSlotTTL_pos)
qed

theorem ip_denial_iff_witness:
  "isLimitedByIP (fst (ServeHTTP sample_readAddress four_claims (4 * Second) (sample_request ''0xE'') (\<lambda>r. 200)))
   \<and> \<not> isLimitedByIP (fst (ServeHTTP sample_readAddress four_claims (64 * Second) (sample_request ''0xE'') (\<lambda>r. 200)))"
proof -
  let ?r = "sample_request ''0xE''"
  have skip: "skipTTLExtension (cache four_claims)" by code_simp
  have ip: "''1.2.3.4'' = getClientIPFromRequest (proxyCount four_claims) ?r" by code_simp
  have reach: "sample_readAddress ?r = Inr ''0xE'' \<and> 0 < ttl four_claims
      \<and> \<not> live (cache four_claims) (4 * Second) ''0xE''" by code_simp
  have full: "live (cache four_claims) (4 * Second) ''1.2.3.4''
      \<and> (\<forall>key \<in> set (slotKeys ''1.2.3.4''). live (cache four_claims) (4 * Second) key)" by code_simp
  have gone: "\<not> (live (cache four_claims) (64 * Second) ''1.2.3.4''
      \<and> (\<forall>key \<in> set (slotKeys ''1.2.3.4''). live (cache four_claims) (64 * Second) key))" by code_simp
  from ip_denial_iff [OF skip ip, of sample_readAddress "''0xE''" "4 * Second" "\<lambda>r. 200"] reach full
  have a: "isLimitedByIP (fst (ServeHTTP sample_readAddress four_claims (4 * Second) ?r (\<lambda>r. 200)))"
    by blast
  from ip_denial_iff [OF skip ip, of sample_readAddress "''0xE''" "64 * Second" "\<lambda>r. 200"] gone
  have b: "\<not> isLimitedByIP (fst (ServeHTTP sample_readAddress four_claims (64 * Second) ?r (\<lambda>r. 200)))"
    by blast
  from a b show ?thesis ..
qed

text \<open>
  Claim C2, as the code has it. The rollback is triggered by any status other than
  200, which covers every status outside the 2xx range and also 201, 204 and the
  like. For an admitted request with such a status the rollback removes exactly the
  entry under the address key and the entry under the plain client-identifier key
  from the state \<open>l'\<close> the handler was given; every other entry, the four slot entries
  among them, is left as recorded; and a later request for the same address, at any
  instant, is not denied on the address check. With status 200 nothing is removed.
\<close>

theorem rollback_on_failure:
  assumes "skipTTLExtension (cache l)" and "readAddress r = Inr address" and "0 < ttl l"
    and "isForwarded (fst (ServeHTTP readAddress l now r next))"
    and "ip = getClientIPFromRequest (proxyCount l) r"
    and "l' = recordEntries l now address ip"
    and "lf = snd (ServeHTTP readAddress l now r next)"
  shows "fst (ServeHTTP readAddress l now r next) = Forwarded (next r)
       \<and> (next r < 200 \<or> 300 \<le> next r \<longrightarrow> next r \<noteq> StatusOK)
       \<and> (next r \<noteq> StatusOK \<longrightarrow>
             items (cache lf) = (items (cache l'))(address := None, ip := None)
             \<and> items (cache lf) address = None \<and> items (cache lf) ip = None
             \<and> (\<forall>key. key \<noteq> address \<and> key \<noteq> ip \<longrightarrow> items (cache lf) key = items (cache l') key)
             \<and> (address \<notin> set (slotKeys ip) \<longrightarrow>
                   (\<forall>key \<in> set (slotKeys ip). items (cache lf) key = items (cache l') key))
             \<and> (\<forall>now' r' next'. readAddress r' = Inr address \<longrightarrow>
                   \<not> isLimitedByAddress (fst (ServeHTTP readAddress lf now' r' next'))))
       \<and> (next r = StatusOK \<longrightarrow> lf = l')"
proof -
  note fwd = ServeHTTP_forwarded(3) [OF assms(1-5)]
  have out: "fst (ServeHTTP readAddress l now r next) = Forwarded (next r)"
    using fwd by simp
  have ok: "next r = StatusOK \<longrightarrow> lf = l'"
    using fwd assms(6,7) by simp
  have range: "next r < 200 \<or> 300 \<le> next r \<longrightarrow> next r \<noteq> StatusOK"
    by (auto simp: StatusOK_def)
  have failed: "items (cache lf) = (items (cache l'))(address := None, ip := None)
             \<and> items (cache lf) address = None \<and> items (cache lf) ip = None
             \<and> (\<forall>key. key \<noteq> address \<and> key \<noteq> ip \<longrightarrow> items (cache lf) key = items (cache l') key)
             \<and> (address \<notin> set (slotKeys ip) \<longrightarrow>
                   (\<forall>key \<in> set (slotKeys ip). items (cache lf) key = items (cache l') key))
             \<and> (\<forall>now' r' next'. readAddress r' = Inr address \<longrightarrow>
                   \<not> isLimitedByAddress (fst (ServeHTTP readAddress lf now' r' next')))"
    if st: "next r \<noteq> StatusOK"
  proof -
    have lf: "lf = rollback l' address ip"
      using fwd st assms(6,7) by simp
    have its: "items (cache lf) = (items (cache l'))(address := None, ip := None)"
      unfolding lf by simp
    have skip': "skipTTLExtension (cache lf)"
      unfolding lf assms(6) using recordEntries_fields(1) [OF assms(1)] by simp
    have gone: "items (cache lf) address = None" "items (cache lf) ip = None"
      unfolding its by simp_all
    have others: "\<forall>key. key \<noteq> address \<and> key \<noteq> ip \<longrightarrow> items (cache lf) key = items (cache l') key"
      unfolding its by simp
    have slots: "address \<notin> set (slotKeys ip) \<longrightarrow>
                   (\<forall>key \<in> set (slotKeys ip). items (cache lf) key = items (cache l') key)"
      unfolding its using ip_not_slot [of ip] by auto
    have again: "\<forall>now' r' next'. readAddress r' = Inr address \<longrightarrow>
                   \<not> isLimitedByAddress (fst (ServeHTTP readAddress lf now' r' next'))"
      using not_limited_by_address [OF skip' _ not_live_absent [OF gone(1)]] by blast
    from its gone others slots again show ?thesis by blast
  qed
  from out range failed ok show ?thesis by blast
qed

theorem rollback_on_failure_witness:
  "fst (ServeHTTP sample_readAddress (NewLimiter 0 (60 * Second)) 0 (sample_request ''0xA'') (\<lambda>r. 500))
     = Forwarded 500
   \<and> items (cache (snd (ServeHTTP sample_readAddress (NewLimiter 0 (60 * Second)) 0
                          (sample_request ''0xA'') (\<lambda>r. 500)))) ''0xA'' = None
   \<and> items (cache (snd (ServeHTTP sample_readAddress (NewLimiter 0 (60 * Second)) 0
                          (sample_request ''0xA'') (\<lambda>r. 500)))) ''1.2.3.4-0''
       = items (cache (recordEntries (NewLimiter 0 (60 * Second)) 0 ''0xA'' ''1.2.3.4'')) ''1.2.3.4-0''
   \<and> \<not> isLimitedByAddress
         (fst (ServeHTTP sample_readAddress
                (snd (ServeHTTP sample_readAddress (NewLimiter 0 (60 * Second)) 0
                        (sample_request ''0xA'') (\<lambda>r. 500)))
                Second (sample_request ''0xA'') (\<lambda>r. 200)))"
proof -
  let ?l = "NewLimiter 0 (60 * Second)"
  let ?r = "sample_request ''0xA''"
  have skip: "skipTTLExtension (cache ?l)" by code_simp
  have ok: "sample_readAddress ?r = Inr ''0xA''" by code_simp
  have on: "0 < ttl ?l" by code_simp
  have fwd: "isForwarded (fst (ServeHTTP sample_readAddress ?l 0 ?r (\<lambda>r. 500)))" by code_simp
  have ip: "''1.2.3.4'' = getClientIPFromRequest (proxyCount ?l) ?r" by code_simp
  have st: "(500 :: int) \<noteq> StatusOK" by code_simp
  have nslot: "''0xA'' \<notin> set (slotKeys ''1.2.3.4'')" by code_simp
  have slot0: "''1.2.3.4-0'' \<in> set (slotKeys ''1.2.3.4'')" by code_simp
  from rollback_on_failure [of ?l sample_readAddress ?r "''0xA''" 0 "\<lambda>r. 500",
      OF skip ok on fwd ip refl refl] st nslot slot0 ok
  show ?thesis by blast
qed

text \<open>
  Status 201 is a success status, and still the entries recorded for the request are
  removed.
\<close>

theorem success_status_201_rolls_back:
  "fst (ServeHTTP sample_readAddress (NewLimiter 0 (60 * Second)) 0 (sample_request ''0xA'') (\<lambda>r. 201))
     = Forwarded 201
   \<and> items (cache (recordEntries (NewLimiter 0 (60 * Second)) 0 ''0xA'' ''1.2.3.4'')) ''0xA''
       = Some \<lparr>item_data = True, item_ttl = 60 * Second, item_expireAt = 60 * Second\<rparr>
   \<and> items (cache (snd (ServeHTTP sample_readAddress (NewLimiter 0 (60 * Second)) 0
                          (sample_request ''0xA'') (\<lambda>r. 201)))) ''0xA'' = None
   \<and> items (cache (snd (ServeHTTP sample_readAddress (NewLimiter 0 (60 * Second)) 0
                          (sample_request ''0xA'') (\<lambda>r. 201)))) ''1.2.3.4'' = None"
proof (intro conjI)
  show "fst (ServeHTTP sample_readAddress (NewLimiter 0 (60 * Second)) 0 (sample_request ''0xA'') (\<lambda>r. 201))
     = Forwarded 201" by code_simp
  show "items (cache (recordEntries (NewLimiter 0 (60 * Second)) 0 ''0xA'' ''1.2.3.4'')) ''0xA''
       = Some \<lparr>item_data = True, item_ttl = 60 * Second, item_expireAt = 60 * Second\<rparr>" by code_simp
  show "items (cache (snd (ServeHTTP sample_readAddress (NewLimiter 0 (60 * Second)) 0
                          (sample_request ''0xA'') (\<lambda>r. 201)))) ''0xA'' = None" by code_simp
  show "items (cache (snd (ServeHTTP sample_readAddress (NewLimiter 0 (60 * Second)) 0
                          (sample_request ''0xA'') (\<lambda>r. 201)))) ''1.2.3.4'' = None" by code_simp
qed

text \<open>
  Claim C3. A request whose address key has a live entry is denied at once with status
  429 and the wait message built from the entry's remaining TTL rounded to the nearest
  second; the limiter is unchanged. The remaining TTL is positive, and (short of the
  64-bit limit of a Duration) its rounded value is a whole number of seconds at most
  half a second away. The outcome is the same for any other request for this address
  and any limiter whose store agrees on the address key alone, so neither the client
  identifier nor any other key is consulted.
\<close>

theorem address_denial:
  assumes "skipTTLExtension (cache l)" and "readAddress r = Inr address" and "0 < ttl l"
    and "live (cache l) now address"
    and "d = remaining (cache l) now address"
  shows "ServeHTTP readAddress l now r next =
           (LimitedByAddress
              \<lparr>Message = ''You have exceeded the rate limit. Please wait ''
                   @ Duration_String (Duration_Round d Second) @ '' before you try again'',
               status = 429\<rparr>, l)
       \<and> 0 < d
       \<and> (d \<le> maxDuration - Second \<longrightarrow>
             Second dvd Duration_Round d Second \<and> 2 * \<bar>Duration_Round d Second - d\<bar> \<le> Second)
       \<and> (\<forall>l' r' next'.
             skipTTLExtension (cache l') \<and> 0 < ttl l' \<and> readAddress r' = Inr address
             \<and> items (cache l') address = items (cache l) address \<longrightarrow>
             fst (ServeHTTP readAddress l' now r' next') = fst (ServeHTTP readAddress l now r next))"
proof (intro conjI allI impI)
  show "ServeHTTP readAddress l now r next =
           (LimitedByAddress
              \<lparr>Message = ''You have exceeded the rate limit. Please wait ''
                   @ Duration_String (Duration_Round d Second) @ '' before you try again'',
               status = 429\<rparr>, l)"
    unfolding Sprintf_wait_Duration assms(5)
    using address_denied_eq [OF assms(1) _ assms(3,4), of readAddress r "next"] assms(2)
    by (simp add: renderJSON_def StatusTooManyRequests_def)
  show pos: "0 < d"
    using assms(4,5) by (simp add: live_remaining_pos)
  show "Second dvd Duration_Round d Second" if "d \<le> maxDuration - Second"
    using Duration_Round_nearest [OF pos that] by blast
  show "2 * \<bar>Duration_Round d Second - d\<bar> \<le> Second" if "d \<le> maxDuration - Second"
    using Duration_Round_nearest [OF pos that] by blast
  show "fst (ServeHTTP readAddress l' now r' next') = fst (ServeHTTP readAddress l now r next)"
    if "skipTTLExtension (cache l') \<and> 0 < ttl l' \<and> readAddress r' = Inr address
             \<and> items (cache l') address = items (cache l) address" for l' r' next'
    using address_denied_independent [OF assms(1-4) that] .
qed

theorem address_denial_witness:
  "ServeHTTP sample_readAddress four_claims 3400000000 (sample_request ''0xA'') (\<lambda>r. 200) =
     (LimitedByAddress
        \<lparr>Message = ''You have exceeded the rate limit. Please wait 57s before you try again'',
         status = 429\<rparr>, four_claims)"
proof -
  have skip: "skipTTLExtension (cache four_claims)" by code_simp
  have ok: "sample_readAddress (sample_request ''0xA'') = Inr ''0xA''" by code_simp
  have on: "0 < ttl four_claims" by code_simp
  have lv: "live (cache four_claims) 3400000000 ''0xA''" by code_simp
  have d: "56600000000 = remaining (cache four_claims) 3400000000 ''0xA''" by code_simp
  have str: "Duration_String (Duration_Round 56600000000 Second) = ''57s''" by code_simp
  from address_denial [of four_claims sample_readAddress "sample_request ''0xA''" "''0xA''"
      3400000000 56600000000 "\<lambda>r. 200", OF skip ok on lv d]
  have "ServeHTTP sample_readAddress four_claims 3400000000 (sample_request ''0xA'') (\<lambda>r. 200) =
     (LimitedByAddress
        \<lparr>Message = ''You have exceeded the rate limit. Please wait ''
             @ Duration_String (Duration_Round 56600000000 Second) @ '' before you try again'',
         status = 429\<rparr>, four_claims)" by (rule conjunct1)
  then show ?thesis unfolding str by simp
qed

text \<open>
  Claim C4, as the code has it. On a denial on IP grounds with a minimum remaining TTL
  across the four slot keys below \<open>2^23\<close> seconds (some 97 days), the response has
  status 429 and its message is the wait text around the rendering of \<open>n\<close>, that
  minimum rounded to the nearest whole second. This is the same rounding as on the
  address path, not a coarser one: \<open>n\<close> seconds is what \<^verbatim>\<open>Duration.Round\<close> gives for
  that TTL. The bound is where the float64 of \<^verbatim>\<open>Seconds()\<close> still separates every
  nanosecond count from the next half second.
\<close>

theorem ip_denial_message:
  assumes "skipTTLExtension (cache l)"
    and "fst (ServeHTTP readAddress l now r next) = LimitedByIP resp"
    and "ip = getClientIPFromRequest (proxyCount l) r"
    and "m = minSlotTTL (cache l) now ip"
    and "m < 8388608 * Second"
    and "n = math_Round (Seconds m)"
  shows "status resp = 429
       \<and> Message resp = ''You have exceeded the rate limit. Please wait ''
            @ fmt_s (ArgFloat64 n) @ '' before you try again''
       \<and> 0 < m
       \<and> 2 * \<bar>n * Second - m\<bar> \<le> Second
       \<and> n * Second = Duration_Round m Second"
proof -
  obtain address where addr: "readAddress r = Inr address"
    using assms(2) by (cases "readAddress r") (auto simp: ServeHTTP_def split: option.splits)
  have on: "0 < ttl l"
    using assms(2) addr by (cases "0 < ttl l") (auto simp: ServeHTTP_def)
  note eq = ServeHTTP_skip [of l readAddress r address now "next", OF assms(1) addr on]
  from assms(2) have pos: "0 < m"
    and resp: "resp = renderJSON (Sprintf_wait (ArgFloat64 n)) StatusTooManyRequests"
    unfolding eq using assms(3,4,6) by (auto simp: Let_def split: if_splits)
  have n: "n = (2 * m + Second) div (2 * Second)"
    using pos assms(5,6) by (simp add: math_Round_Seconds)
  have near: "2 * \<bar>n * Second - m\<bar> \<le> Second"
    using nearest_second(2) [of m "n * Second"] pos n by simp
  have "m \<le> maxDuration - Second"
    using assms(5) by (simp add: maxDuration_def Second_def)
  then have same: "n * Second = Duration_Round m Second"
    using pos n by (simp add: Duration_Round_Second)
  from resp pos near same show ?thesis
    by (simp add: renderJSON_def Sprintf_wait_text StatusTooManyRequests_def)
qed

theorem ip_denial_message_witness:
  "fst (ServeHTTP sample_readAddress four_claims 3400000000 (sample_request ''0xE'') (\<lambda>r. 200))
     = LimitedByIP
        \<lparr>Message = ''You have exceeded the rate limit. Please wait %!s(float64=57) before you try again'',
         status = 429\<rparr>
   \<and> 57 * Second = Duration_Round 56600000000 Second"
proof -
  have skip: "skipTTLExtension (cache four_claims)" by code_simp
  have out: "fst (ServeHTTP sample_readAddress four_claims 3400000000 (sample_request ''0xE'') (\<lambda>r. 200))
     = LimitedByIP
        \<lparr>Message = ''You have exceeded the rate limit. Please wait %!s(float64=57) before you try again'',
         status = 429\<rparr>" by code_simp
  have ip: "''1.2.3.4'' = getClientIPFromRequest (proxyCount four_claims) (sample_request ''0xE'')"
    by code_simp
  have m: "56600000000 = minSlotTTL (cache four_claims) 3400000000 ''1.2.3.4''" by code_simp
  have n: "57 = math_Round (Seconds 56600000000)" by code_simp
  have small: "(56600000000 :: int) < 8388608 * Second" by code_simp
  from ip_denial_message [OF skip out ip m small n] out
  show ?thesis by blast
qed

text \<open>
  With 56.6 seconds remaining on either path, the address path answers \<^verbatim>\<open>57s\<close> and
  the IP path answers with the number 57: the same whole second.
\<close>

theorem ip_rounding_not_coarser:
  "remaining (cache four_claims) 3400000000 ''0xA'' = 56600000000
   \<and> minSlotTTL (cache four_claims) 3400000000 ''1.2.3.4'' = 56600000000
   \<and> fst (ServeHTTP sample_readAddress four_claims 3400000000 (sample_request ''0xA'') (\<lambda>r. 200))
       = LimitedByAddress
          \<lparr>Message = ''You have exceeded the rate limit. Please wait 57s before you try again'',
           status = 429\<rparr>
   \<and> fst (ServeHTTP sample_readAddress four_claims 3400000000 (sample_request ''0xE'') (\<lambda>r. 200))
       = LimitedByIP
          \<lparr>Message = ''You have exceeded the rate limit. Please wait %!s(float64=57) before you try again'',
           status = 429\<rparr>
   \<and> Duration_Round 56600000000 Second = math_Round (Seconds 56600000000) * Second"
proof (intro conjI)
  show "remaining (cache four_claims) 3400000000 ''0xA'' = 56600000000" by code_simp
  show "minSlotTTL (cache four_claims) 3400000000 ''1.2.3.4'' = 56600000000" by code_simp
  show "fst (ServeHTTP sample_readAddress four_claims 3400000000 (sample_request ''0xA'') (\<lambda>r. 200))
       = LimitedByAddress
          \<lparr>Message = ''You have exceeded the rate limit. Please wait 57s before you try again'',
           status = 429\<rparr>" by code_simp
  show "fst (ServeHTTP sample_readAddress four_claims 3400000000 (sample_request ''0xE'') (\<lambda>r. 200))
       = LimitedByIP
          \<lparr>Message = ''You have exceeded the rate limit. Please wait %!s(float64=57) before you try again'',
           status = 429\<rparr>" by code_simp
  show "Duration_Round 56600000000 Second = math_Round (Seconds 56600000000) * Second" by code_simp
qed

text \<open>
  Claim C5. For an admitted request under a positive TTL, the limiter that the
  downstream handler finds is \<open>l'\<close>: it holds an entry with the configured TTL under
  the address key and under the plain client-identifier key, and, besides these, exactly
  one new entry, under the first slot key in the order \<^verbatim>\<open>-0\<close>, \<^verbatim>\<open>-1\<close>, \<^verbatim>\<open>-2\<close>,
  \<^verbatim>\<open>-3\<close> that has no live entry; when all four slot keys hold live entries, no slot
  entry is recorded. The slots are inspected after the first two entries are written,
  which makes no difference unless the address is itself one of the slot keys.
\<close>

theorem admitted_request_records:
  assumes "skipTTLExtension (cache l)" and "readAddress r = Inr address" and "0 < ttl l"
    and "isForwarded (fst (ServeHTTP readAddress l now r next))"
    and "ip = getClientIPFromRequest (proxyCount l) r"
    and "entry = \<lparr>item_data = True, item_ttl = ttl l, item_expireAt = now + ttl l\<rparr>"
    and "l' = recordEntries l now address ip"
    and "c1 = cache (setKey (setKey l now address) now ip)"
  shows "snd (ServeHTTP readAddress l now r next)
           = (if next r \<noteq> StatusOK then rollback l' address ip else l')
       \<and> items (cache l') address = Some entry
       \<and> items (cache l') ip = Some entry
       \<and> (\<forall>key. firstFreeSlot c1 now ip = Some key \<longrightarrow>
             key \<in> set (slotKeys ip) \<and>
             items (cache l') = (items (cache l))(address \<mapsto> entry, ip \<mapsto> entry, key \<mapsto> entry))
       \<and> (firstFreeSlot c1 now ip = None \<longrightarrow>
             items (cache l') = (items (cache l))(address \<mapsto> entry, ip \<mapsto> entry))
       \<and> (firstFreeSlot c1 now ip = None \<longleftrightarrow> (\<forall>key \<in> set (slotKeys ip). live c1 now key))
       \<and> (address \<notin> set (slotKeys ip) \<longrightarrow> firstFreeSlot c1 now ip = firstFreeSlot (cache l) now ip)"
proof (intro conjI)
  show "snd (ServeHTTP readAddress l now r next)
           = (if next r \<noteq> StatusOK then rollback l' address ip else l')"
    using ServeHTTP_forwarded(3) [OF assms(1-5)] assms(7) by simp
  have l': "l' = (case firstFreeSlot c1 now ip of None \<Rightarrow> setKey (setKey l now address) now ip
      | Some key \<Rightarrow> setKey (setKey (setKey l now address) now ip) now key)"
    using assms(1,7,8) by (simp add: recordEntries_skip Let_def)
  show "items (cache l') address = Some entry"
    unfolding l' using assms(6) by (simp split: option.splits)
  show "items (cache l') ip = Some entry"
    unfolding l' using assms(6) by (simp split: option.splits)
  show "\<forall>key. firstFreeSlot c1 now ip = Some key \<longrightarrow>
             key \<in> set (slotKeys ip) \<and>
             items (cache l') = (items (cache l))(address \<mapsto> entry, ip \<mapsto> entry, key \<mapsto> entry)"
    unfolding l' using assms(6) by (auto dest: firstFreeSlot_Some)
  show "firstFreeSlot c1 now ip = None \<longrightarrow>
             items (cache l') = (items (cache l))(address \<mapsto> entry, ip \<mapsto> entry)"
    unfolding l' using assms(6) by auto
  show "firstFreeSlot c1 now ip = None \<longleftrightarrow> (\<forall>key \<in> set (slotKeys ip). live c1 now key)"
    by (rule firstFreeSlot_None)
  show "address \<notin> set (slotKeys ip) \<longrightarrow> firstFreeSlot c1 now ip = firstFreeSlot (cache l) now ip"
    using firstFreeSlot_after_set [OF assms(3)] unfolding assms(8) by blast
qed

theorem admitted_request_records_witness:
  "isForwarded (fst (ServeHTTP sample_readAddress four_claims (64 * Second) (sample_request ''0xE'') (\<lambda>r. 200)))
   \<and> items (cache (recordEntries four_claims (64 * Second) ''0xE'' ''1.2.3.4''))
       = (items (cache four_claims))
           (''0xE'' \<mapsto> \<lparr>item_data = True, item_ttl = ttl four_claims, item_expireAt = 64 * Second + ttl four_claims\<rparr>,
            ''1.2.3.4'' \<mapsto> \<lparr>item_data = True, item_ttl = ttl four_claims, item_expireAt = 64 * Second + ttl four_claims\<rparr>,
            ''1.2.3.4-0'' \<mapsto> \<lparr>item_data = True, item_ttl = ttl four_claims, item_expireAt = 64 * Second + ttl four_claims\<rparr>)"
proof -
  let ?r = "sample_request ''0xE''"
  let ?now = "64 * Second"
  have skip: "skipTTLExtension (cache four_claims)" by code_simp
  have ok: "sample_readAddress ?r = Inr ''0xE''" by code_simp
  have on: "0 < ttl four_claims" by code_simp
  have fwd: "isForwarded (fst (ServeHTTP sample_readAddress four_claims ?now ?r (\<lambda>r. 200)))"
    by code_simp
  have ip: "''1.2.3.4'' = getClientIPFromRequest (proxyCount four_claims) ?r" by code_simp
  have slot: "firstFreeSlot (cache (setKey (setKey four_claims ?now ''0xE'') ?now ''1.2.3.4'')) ?now ''1.2.3.4''
      = Some ''1.2.3.4-0''" by code_simp
  from admitted_request_records [of four_claims sample_readAddress ?r "''0xE''" ?now "\<lambda>r. 200",
      OF skip ok on fwd ip refl refl refl] slot fwd
  show ?thesis by blast
qed

text \<open>
  Claim C6. With a configured TTL of zero or less, every request whose address parses
  is forwarded to the downstream handler, whatever the store holds, the store is left
  as it is, and no request at all is denied on address or IP grounds.
\<close>

theorem disabled_limiter_admits:
  assumes "ttl l \<le> 0"
  shows "(readAddress r = Inr address \<longrightarrow>
            ServeHTTP readAddress l now r next = (Forwarded (next r), l))
       \<and> \<not> isLimitedByAddress (fst (ServeHTTP readAddress l now r next))
       \<and> \<not> isLimitedByIP (fst (ServeHTTP readAddress l now r next))"
  using assms
  by (auto simp: ServeHTTP_def split: sum.splits option.splits)

theorem disabled_limiter_admits_witness:
  "ServeHTTP sample_readAddress (four_claims\<lparr>ttl := 0\<rparr>) (4 * Second) (sample_request ''0xA'') (\<lambda>r. 200)
     = (Forwarded 200, four_claims\<lparr>ttl := 0\<rparr>)"
proof -
  have off: "ttl (four_claims\<lparr>ttl := 0\<rparr>) \<le> 0" by simp
  have ok: "sample_readAddress (sample_request ''0xA'') = Inr ''0xA''" by code_simp
  from disabled_limiter_admits [OF off, of sample_readAddress "sample_request ''0xA''" "''0xA''"
      "4 * Second" "\<lambda>r. 200"] ok
  show ?thesis by blast
qed

text \<open>
  Claim C7. With a positive hop count and a non-empty \<^verbatim>\<open>X-Forwarded-For\<close> header the
  client identifier is the white-space-trimmed piece of the header, split at commas,
  at index piece count minus hop count, or at index 0 when that is negative; the index
  is always within the pieces. Otherwise it is the host part of the remote address
  read as \<^verbatim>\<open>host:port\<close>, or the remote address itself when that reading fails. The
  pieces are the comma-free parts of the header that joined by commas give it back,
  and trimming returns a contiguous part of its argument.
\<close>

theorem client_identifier_resolution:
  assumes "xff = Header_Get (Header r) ''X-Forwarded-For''"
    and "parts = Split xff CHR '',''"
    and "idx = max 0 (int (length parts) - hops)"
  shows "(0 < hops \<and> xff \<noteq> [] \<longrightarrow>
            getClientIPFromRequest hops r = TrimSpace (parts ! nat idx)
            \<and> nat idx < length parts)
       \<and> (\<not> (0 < hops \<and> xff \<noteq> []) \<longrightarrow>
            getClientIPFromRequest hops r =
              (case SplitHostPort (RemoteAddr r) of
                 Inl err \<Rightarrow> RemoteAddr r
               | Inr (host, port) \<Rightarrow> host))
       \<and> length parts = Suc (count_list xff CHR '','')
       \<and> (\<forall>p \<in> set parts. CHR '','' \<notin> set p)
       \<and> concat (map (\<lambda>p. p @ '','') (butlast parts)) @ last parts = xff
       \<and> (\<forall>s. \<exists>pre suf. s = pre @ TrimSpace s @ suf)"
proof (intro conjI impI)
  assume h: "0 < hops \<and> xff \<noteq> []"
  have len: "0 < length parts" using assms(2) by (simp add: length_Split)
  have idx: "idx = (if int (length parts) - hops < 0 then 0 else int (length parts) - hops)"
    using assms(3) by (simp add: max_def)
  show "getClientIPFromRequest hops r = TrimSpace (parts ! nat idx)"
    using h assms(1,2) idx by (simp add: getClientIPFromRequest_def Let_def)
  show "nat idx < length parts"
    using h len idx by (auto split: if_splits)
next
  assume "\<not> (0 < hops \<and> xff \<noteq> [])"
  then show "getClientIPFromRequest hops r =
              (case SplitHostPort (RemoteAddr r) of
                 Inl err \<Rightarrow> RemoteAddr r
               | Inr (host, port) \<Rightarrow> host)"
    using assms(1) by (auto simp: getClientIPFromRequest_def remoteIP_def Let_def)
next
  show "length parts = Suc (count_list xff CHR '','')"
    using assms(2) by (simp add: length_Split)
  show "\<forall>p \<in> set parts. CHR '','' \<notin> set p"
    using assms(2) by (auto dest: Split_no_sep)
  show "concat (map (\<lambda>p. p @ '','') (butlast parts)) @ last parts = xff"
    unfolding assms(2) by (rule Split_join)
  show "\<forall>s. \<exists>pre suf. s = pre @ TrimSpace s @ suf"
    using TrimSpace_substring by blast
qed

theorem client_identifier_resolution_witness:
  "getClientIPFromRequest 1
      \<lparr>Header = [''X-Forwarded-For'' \<mapsto> [''1.1.1.1, 2.2.2.2, 3.3.3.3'']],
         RemoteAddr = ''9.9.9.9:1234'', Body = []\<rparr> = ''3.3.3.3''
   \<and> getClientIPFromRequest 5
      \<lparr>Header = [''X-Forwarded-For'' \<mapsto> [''1.1.1.1, 2.2.2.2, 3.3.3.3'']],
         RemoteAddr = ''9.9.9.9:1234'', Body = []\<rparr> = ''1.1.1.1''
   \<and> getClientIPFromRequest 0
      \<lparr>Header = [''X-Forwarded-For'' \<mapsto> [''1.1.1.1, 2.2.2.2, 3.3.3.3'']],
         RemoteAddr = ''9.9.9.9:1234'', Body = []\<rparr> = ''9.9.9.9''
   \<and> getClientIPFromRequest 1
      \<lparr>Header = Map.empty, RemoteAddr = ''9.9.9.9'', Body = []\<rparr> = ''9.9.9.9''"
proof -
  let ?h = "[''X-Forwarded-For'' \<mapsto> [''1.1.1.1, 2.2.2.2, 3.3.3.3'']]"
  let ?r = "\<lparr>Header = ?h, RemoteAddr = ''9.9.9.9:1234'', Body = []\<rparr>"
  let ?q = "\<lparr>Header = Map.empty, RemoteAddr = ''9.9.9.9'', Body = []\<rparr> :: Request"
  let ?xff = "''1.1.1.1, 2.2.2.2, 3.3.3.3''"
  let ?parts = "[''1.1.1.1'', '' 2.2.2.2'', '' 3.3.3.3'']"
  have xff: "?xff = Header_Get (Header ?r) ''X-Forwarded-For''" by code_simp
  have parts: "?parts = Split ?xff CHR '',''" by code_simp
  have i1: "2 = max 0 (int (length ?parts) - 1)" and i5: "0 = max 0 (int (length ?parts) - 5)"
    and i0: "3 = max 0 (int (length ?parts) - 0)"
    by code_simp+
  have on: "(0 :: int) < 1 \<and> ?xff \<noteq> []" "(0 :: int) < 5 \<and> ?xff \<noteq> []" by code_simp+
  have off: "\<not> ((0 :: int) < 0 \<and> ?xff \<noteq> [])" by code_simp
  have t1: "TrimSpace (?parts ! nat 2) = ''3.3.3.3''" and t5: "TrimSpace (?parts ! nat 0) = ''1.1.1.1''"
    by code_simp+
  have host: "(case SplitHostPort (RemoteAddr ?r) of Inl err \<Rightarrow> RemoteAddr ?r | Inr (host, port) \<Rightarrow> host)
      = ''9.9.9.9''" by code_simp
  have xq: "[] = Header_Get (Header ?q) ''X-Forwarded-For''" by code_simp
  have pq: "[[]] = Split [] CHR '',''" by code_simp
  have iq: "0 = max 0 (int (length [[] :: string]) - 1)" by code_simp
  have offq: "\<not> ((0 :: int) < 1 \<and> ([] :: string) \<noteq> [])" by code_simp
  have raw: "(case SplitHostPort (RemoteAddr ?q) of Inl err \<Rightarrow> RemoteAddr ?q | Inr (host, port) \<Rightarrow> host)
      = ''9.9.9.9''" by code_simp
  from client_identifier_resolution [OF xff parts i1] on(1) t1
  have a: "getClientIPFromRequest 1 ?r = ''3.3.3.3''" by metis
  from client_identifier_resolution [OF xff parts i5] on(2) t5
  have b: "getClientIPFromRequest 5 ?r = ''1.1.1.1''" by metis
  from client_identifier_resolution [OF xff parts i0] off host
  have c: "getClientIPFromRequest 0 ?r = ''9.9.9.9''" by metis
  from client_identifier_resolution [OF xq pq iq] offq raw
  have d: "getClientIPFromRequest 1 ?q = ''9.9.9.9''" by metis
  from a b c d show ?thesis by blast
qed

text \<open>
  Claim C8. In a store that does not extend entries on a hit, which is how
  \<^verbatim>\<open>NewLimiter\<close> sets its store up, a key recorded at \<open>t0\<close> with TTL \<open>t\<close> is reported
  present \<open>e\<close> later with remaining TTL \<open>t - e\<close>, positive and at most \<open>t\<close>, as long as
  \<open>e < t\<close>, and absent from then on, whatever lookups were made in between: no lookup
  changes the store. \<^verbatim>\<open>checklimitByKey\<close> returns that remaining TTL, or zero.
\<close>

theorem store_read_semantics:
  assumes "skipTTLExtension c" and "0 < t" and "0 \<le> e"
    and "c' = lookups (SetWithTTL c t0 key v t) reads"
  shows "fst (GetWithTTL c' (t0 + e) key) = (if e < t then Some (v, t - e) else None)
       \<and> (e < t \<longrightarrow> 0 < t - e \<and> t - e \<le> t)
       \<and> snd (GetWithTTL c' (t0 + e) key) = c'
       \<and> c' = SetWithTTL c t0 key v t
       \<and> fst (checklimitByKey \<lparr>cache = c', proxyCount = pc, ttl = t\<rparr> (t0 + e) key)
           = (if e < t then t - e else 0)
       \<and> skipTTLExtension (cache (NewLimiter pc t))"
proof -
  have c': "c' = SetWithTTL c t0 key v t"
    using assms(1,4) by (simp add: lookups_skip)
  have skip': "skipTTLExtension c'"
    unfolding c' using assms(1) by simp
  have get: "GetWithTTL c' (t0 + e) key = (if e < t then Some (v, t - e) else None, c')"
    unfolding GetWithTTL_skip [OF skip'] unfolding c' by simp
  have chk: "fst (checklimitByKey \<lparr>cache = c', proxyCount = pc, ttl = t\<rparr> (t0 + e) key)
           = (if e < t then t - e else 0)"
    by (simp add: checklimitByKey_def get)
  have new: "skipTTLExtension (cache (NewLimiter pc t))"
    by (simp add: NewLimiter_def NewCache_def SkipTTLExtensionOnHit_def)
  from get c' chk new assms(3) show ?thesis by simp
qed

theorem store_read_semantics_witness:
  "fst (GetWithTTL (lookups (SetWithTTL (cache (NewLimiter 0 (60 * Second))) 0 ''0xA'' True (60 * Second))
          [(Second, ''0xA''), (2 * Second, ''0xA''), (2 * Second, ''0xB'')]) (0 + 3 * Second) ''0xA'')
     = Some (True, 57 * Second)
   \<and> fst (GetWithTTL (lookups (SetWithTTL (cache (NewLimiter 0 (60 * Second))) 0 ''0xA'' True (60 * Second))
          [(Second, ''0xA''), (59 * Second, ''0xA'')]) (0 + 60 * Second) ''0xA'')
     = None"
proof -
  have skip: "skipTTLExtension (cache (NewLimiter 0 (60 * Second)))" by code_simp
  have pos: "0 < 60 * Second" by code_simp
  have e1: "0 \<le> 3 * Second" and e2: "0 \<le> 60 * Second" by code_simp+
  have in1: "3 * Second < 60 * Second" and out2: "\<not> 60 * Second < 60 * Second" by code_simp+
  have v: "60 * Second - 3 * Second = 57 * Second" by code_simp
  from store_read_semantics [OF skip pos e1 refl, of 0 "''0xA''" True
      "[(Second, ''0xA''), (2 * Second, ''0xA''), (2 * Second, ''0xB'')]" 0]
  have "fst (GetWithTTL (lookups (SetWithTTL (cache (NewLimiter 0 (60 * Second))) 0 ''0xA'' True (60 * Second))
          [(Second, ''0xA''), (2 * Second, ''0xA''), (2 * Second, ''0xB'')]) (0 + 3 * Second) ''0xA'')
     = (if 3 * Second < 60 * Second then Some (True, 60 * Second - 3 * Second) else None)"
    by (rule conjunct1)
  then have a: "fst (GetWithTTL (lookups (SetWithTTL (cache (NewLimiter 0 (60 * Second))) 0 ''0xA'' True (60 * Second))
          [(Second, ''0xA''), (2 * Second, ''0xA''), (2 * Second, ''0xB'')]) (0 + 3 * Second) ''0xA'')
     = Some (True, 57 * Second)"
    by (simp only: in1 v if_True)
  from store_read_semantics [OF skip pos e2 refl, of 0 "''0xA''" True
      "[(Second, ''0xA''), (59 * Second, ''0xA'')]" 0]
  have "fst (GetWithTTL (lookups (SetWithTTL (cache (NewLimiter 0 (60 * Second))) 0 ''0xA'' True (60 * Second))
          [(Second, ''0xA''), (59 * Second, ''0xA'')]) (0 + 60 * Second) ''0xA'')
     = (if 60 * Second < 60 * Second then Some (True, 60 * Second - 60 * Second) else None)"
    by (rule conjunct1)
  then have b: "fst (GetWithTTL (lookups (SetWithTTL (cache (NewLimiter 0 (60 * Second))) 0 ''0xA'' True (60 * Second))
          [(Second, ''0xA''), (59 * Second, ''0xA'')]) (0 + 60 * Second) ''0xA'')
     = None"
    by (simp only: out2 if_False)
  from a b show ?thesis ..
qed

text \<open>
  Claim C9. When the address fails to parse, the limiter answers at once: the limiter
  and its store are returned unchanged, the outcome is not a forwarding (the result
  does not depend on the downstream handler), and the response carries the status and
  message of the malformed-request error found in the error chain, or status 500 with
  the text \<^verbatim>\<open>Internal Server Error\<close> for any other error.
\<close>

theorem malformed_short_circuit:
  assumes "readAddress r = Inl err"
  shows "ServeHTTP readAddress l now r next =
           (Malformed
              (case errors_As err of
                 Some (st, msg) \<Rightarrow> \<lparr>Message = msg, status = st\<rparr>
               | None \<Rightarrow> \<lparr>Message = ''Internal Server Error'', status = 500\<rparr>), l)
       \<and> \<not> isForwarded (fst (ServeHTTP readAddress l now r next))
       \<and> (\<forall>next'. ServeHTTP readAddress l now r next' = ServeHTTP readAddress l now r next)"
  using assms
  by (simp add: ServeHTTP_def renderJSON_def StatusText_def StatusInternalServerError_def
      split: option.splits)

theorem malformed_short_circuit_witness:
  "ServeHTTP sample_readAddress four_claims (4 * Second) (sample_request ''bad'') (\<lambda>r. 200)
     = (Malformed \<lparr>Message = ''invalid address'', status = 400\<rparr>, four_claims)
   \<and> ServeHTTP (\<lambda>r. Inl (wrappedError ''decode'' (otherError ''unexpected EOF'')))
         four_claims (4 * Second) (sample_request ''0xA'') (\<lambda>r. 200)
     = (Malformed \<lparr>Message = ''Internal Server Error'', status = 500\<rparr>, four_claims)"
proof -
  have bad: "sample_readAddress (sample_request ''bad'') = Inl (malformedRequest 400 ''invalid address'')"
    by code_simp
  from malformed_short_circuit [of sample_readAddress "sample_request ''bad''" _ four_claims
      "4 * Second" "\<lambda>r. 200", OF bad]
  have a: "ServeHTTP sample_readAddress four_claims (4 * Second) (sample_request ''bad'') (\<lambda>r. 200)
     = (Malformed \<lparr>Message = ''invalid address'', status = 400\<rparr>, four_claims)"
    by simp
  from malformed_short_circuit [of "\<lambda>r. Inl (wrappedError ''decode'' (otherError ''unexpected EOF''))"
      "sample_request ''0xA''" "wrappedError ''decode'' (otherError ''unexpected EOF'')" four_claims
      "4 * Second" "\<lambda>r. 200", OF refl]
  have b: "ServeHTTP (\<lambda>r. Inl (wrappedError ''decode'' (otherError ''unexpected EOF'')))
         four_claims (4 * Second) (sample_request ''0xA'') (\<lambda>r. 200)
     = (Malformed \<lparr>Message = ''Internal Server Error'', status = 500\<rparr>, four_claims)"
    by simp
  from a b show ?thesis ..
qed

text \<open>
  Claim C10. A request that is denied, on the address path or on the IP path, leaves
  the limiter and its store exactly as they were (for a store that does not extend
  entries on a hit, as \<^verbatim>\<open>NewLimiter\<close> configures it).
\<close>

theorem denial_leaves_store_unchanged:
  assumes "skipTTLExtension (cache l)"
    and "isLimitedByAddress (fst (ServeHTTP readAddress l now r next))
         \<or> isLimitedByIP (fst (ServeHTTP readAddress l now r next))"
  shows "snd (ServeHTTP readAddress l now r next) = l"
proof (cases "readAddress r")
  case (Inl err)
  with assms(2) show ?thesis
    by (auto simp: ServeHTTP_def split: option.splits)
next
  case (Inr address)
  show ?thesis
  proof (cases "0 < ttl l")
    case True
    have "ServeHTTP readAddress l now r next = (fst (ServeHTTP readAddress l now r next), l)
          \<or> isForwarded (fst (ServeHTTP readAddress l now r next))"
      using assms(1) Inr True by (simp add: ServeHTTP_skip Let_def)
    with assms(2) show ?thesis
      by (cases "fst (ServeHTTP readAddress l now r next)") (auto simp: prod_eq_iff)
  next
    case False
    with assms(2) Inr show ?thesis
      by (simp add: ServeHTTP_def)
  qed
qed

theorem denial_leaves_store_unchanged_witness:
  "isLimitedByAddress (fst (ServeHTTP sample_readAddress four_claims (4 * Second) (sample_request ''0xA'') (\<lambda>r. 200)))
   \<and> snd (ServeHTTP sample_readAddress four_claims (4 * Second) (sample_request ''0xA'') (\<lambda>r. 200)) = four_claims"
proof -
  have skip: "skipTTLExtension (cache four_claims)" by code_simp
  have denied: "isLimitedByAddress
      (fst (ServeHTTP sample_readAddress four_claims (4 * Second) (sample_request ''0xA'') (\<lambda>r. 200)))"
    by code_simp
  then have "isLimitedByAddress
      (fst (ServeHTTP sample_readAddress four_claims (4 * Second) (sample_request ''0xA'') (\<lambda>r. 200)))
    \<or> isLimitedByIP
      (fst (ServeHTTP sample_readAddress four_claims (4 * Second) (sample_request ''0xA'') (\<lambda>r. 200)))" ..
  from denial_leaves_store_unchanged [OF skip this] denied show ?thesis by blast
qed

end
